theory Spec2Isabelle
  imports Main "HOL-Library.Sublist"
begin

section \<open>The project host's snapshot cache (main.ts, lines 132 and 149--163)\<close>

text \<open>
  \<^verbatim>\<open>ts.sys\<close> as the host sees it: the file system answers of the moment. A request is
  evaluated against the file system current at that request, so that two requests can
  see different disks.
\<close>

record sys =
  fileExists :: "string \<Rightarrow> bool"
  readFile :: "string \<Rightarrow> string option"
  directoryExists :: "string \<Rightarrow> bool"

text \<open>
  A snapshot is an object: \<^verbatim>\<open>ts.ScriptSnapshot.fromString(content)\<close> allocates a new one on
  every call. \<open>snapshot_ref\<close> is the object's identity (its allocation number),
  \<open>snapshot_text\<close> the immutable text it was created from.
\<close>

record IScriptSnapshot =
  snapshot_ref :: nat
  snapshot_text :: string

text \<open>
  The state a host closes over: the map \<^verbatim>\<open>scriptSnapshots\<close> of line 132 and the
  allocator of snapshot objects.
\<close>

record host_state =
  scriptSnapshots :: "string \<rightharpoonup> IScriptSnapshot"
  next_ref :: nat

definition fromString :: "string \<Rightarrow> host_state \<Rightarrow> IScriptSnapshot \<times> host_state" where
  "fromString content h =
     (\<lparr>snapshot_ref = next_ref h, snapshot_text = content\<rparr>, h\<lparr>next_ref := Suc (next_ref h)\<rparr>)"

definition new_host :: host_state where
  "new_host = \<lparr>scriptSnapshots = Map.empty, next_ref = 0\<rparr>"

text \<open>
  \<^verbatim>\<open>getScriptSnapshot\<close>, lines 149--163: \<open>None\<close> is \<^verbatim>\<open>undefined\<close>.
\<close>

definition getScriptSnapshot ::
  "sys \<Rightarrow> string \<Rightarrow> host_state \<Rightarrow> IScriptSnapshot option \<times> host_state" where
  "getScriptSnapshot fs fileName h =
     (case scriptSnapshots h fileName of
        Some result \<Rightarrow> (Some result, h)
      | None \<Rightarrow>
          if \<not> fileExists fs fileName then (None, h)
          else (case readFile fs fileName of
                  None \<Rightarrow> (None, h)
                | Some content \<Rightarrow>
                    (let (result, h') = fromString content h
                     in (Some result, h'\<lparr>scriptSnapshots := (scriptSnapshots h')(fileName \<mapsto> result)\<rparr>))))"

text \<open>
  The resolution engine issues any number of requests between two requests of interest,
  each against the disk of its moment.
\<close>

fun requests :: "(sys \<times> string) list \<Rightarrow> host_state \<Rightarrow> host_state" where
  "requests [] h = h"
| "requests ((fs, fileName) # rs) h = requests rs (snd (getScriptSnapshot fs fileName h))"

text \<open>Two disks for the examples: one file with some text, and nothing at all.\<close>

definition disk_with :: "string \<Rightarrow> string \<Rightarrow> sys" where
  "disk_with name content =
     \<lparr>fileExists = (\<lambda>f. f = name),
      readFile = (\<lambda>f. if f = name then Some content else None),
      directoryExists = (\<lambda>_. False)\<rparr>"

definition empty_disk :: sys where
  "empty_disk =
     \<lparr>fileExists = (\<lambda>_. False), readFile = (\<lambda>_. None), directoryExists = (\<lambda>_. False)\<rparr>"

section \<open>Graph elements and their serialization (emitter.ts)\<close>

text \<open>
  A vertex or an edge is an object of the LSIF protocol; the emitter only serializes it.
  Elements are modelled as JSON data. Numbers are integral (identifiers, line and
  character offsets), and strings are lists of 8-bit characters.
\<close>

datatype json =
    JNull
  | JBool bool
  | JNumber int
  | JString string
  | JArray "json list"
  | JObject "(string \<times> json) list"

definition LF :: char where
  "LF = CHR 0x0A"

text \<open>
  \<^verbatim>\<open>JSON.stringify(value, undefined, space)\<close> of ECMAScript, for this data: the decimal
  rendering of an integer (as JavaScript prints integers below \<open>10 ^ 21\<close>),
  \<^verbatim>\<open>QuoteJSONString\<close>, and \<^verbatim>\<open>SerializeJSONProperty\<close> with its \<open>gap\<close> and current
  \<open>indent\<close>. With an empty gap, members are separated by a comma alone; otherwise every
  member starts a new, indented line.
\<close>

fun digits :: "nat \<Rightarrow> string" where
  "digits n =
     (if n < 10 then [''0123456789'' ! n]
      else digits (n div 10) @ [''0123456789'' ! (n mod 10)])"

declare digits.simps [simp del]

definition Number_toString :: "int \<Rightarrow> string" where
  "Number_toString i = (if i < 0 then CHR ''-'' # digits (nat (- i)) else digits (nat i))"

definition hex :: "nat \<Rightarrow> char" where
  "hex n = ''0123456789abcdef'' ! n"

definition escape :: "char \<Rightarrow> string" where
  "escape c =
    (if c = CHR 0x08 then [CHR 0x5C, CHR ''b'']
     else if c = CHR 0x09 then [CHR 0x5C, CHR ''t'']
     else if c = CHR 0x0A then [CHR 0x5C, CHR ''n'']
     else if c = CHR 0x0C then [CHR 0x5C, CHR ''f'']
     else if c = CHR 0x0D then [CHR 0x5C, CHR ''r'']
     else if c = CHR 0x22 then [CHR 0x5C, CHR 0x22]
     else if c = CHR 0x5C then [CHR 0x5C, CHR 0x5C]
     else if (of_char c :: nat) < 32
       then [CHR 0x5C, CHR ''u'', CHR ''0'', CHR ''0'', hex (of_char c div 16), hex (of_char c mod 16)]
     else [c])"

definition QuoteJSONString :: "string \<Rightarrow> string" where
  "QuoteJSONString s = [CHR 0x22] @ concat (map escape s) @ [CHR 0x22]"

fun join :: "string \<Rightarrow> string list \<Rightarrow> string" where
  "join sep [] = []"
| "join sep [x] = x"
| "join sep (x # y # ys) = x @ sep @ join sep (y # ys)"

fun SerializeJSONProperty :: "string \<Rightarrow> string \<Rightarrow> json \<Rightarrow> string" where
  "SerializeJSONProperty gap indent JNull = ''null''"
| "SerializeJSONProperty gap indent (JBool b) = (if b then ''true'' else ''false'')"
| "SerializeJSONProperty gap indent (JNumber n) = Number_toString n"
| "SerializeJSONProperty gap indent (JString s) = QuoteJSONString s"
| "SerializeJSONProperty gap indent (JArray xs) =
     (let stepback = indent;
          indent = indent @ gap;
          partial = map (SerializeJSONProperty gap indent) xs
      in if partial = [] then ''[]''
         else if gap = [] then ''['' @ join '','' partial @ '']''
         else ''['' @ [LF] @ indent @ join ('','' @ [LF] @ indent) partial @ [LF] @ stepback @ '']'')"
| "SerializeJSONProperty gap indent (JObject ps) =
     (let stepback = indent;
          indent = indent @ gap;
          partial = map (\<lambda>(P, v). QuoteJSONString P @ '':'' @ (if gap \<noteq> [] then '' '' else [])
                                @ SerializeJSONProperty gap indent v) ps
      in if partial = [] then ''{}''
         else if gap = [] then ''{'' @ join '','' partial @ ''}''
         else ''{'' @ [LF] @ indent @ join ('','' @ [LF] @ indent) partial @ [LF] @ stepback @ ''}'')"

definition JSON_stringify :: "json \<Rightarrow> nat \<Rightarrow> string" where
  "JSON_stringify v space = SerializeJSONProperty (replicate (min 10 space) CHR '' '') [] v"

text \<open>
  The \<^verbatim>\<open>Writer\<close> interface of \<^verbatim>\<open>./writer\<close> as the emitter uses it: one operation,
  \<^verbatim>\<open>writeln\<close>, acting on a sink of type \<open>'w\<close>. \<open>create\<close> is lines 12--18 of emitter.ts.
\<close>

record 'w Writer =
  writeln :: "string \<Rightarrow> 'w \<Rightarrow> 'w"

record 'w Emitter =
  emit :: "json \<Rightarrow> 'w \<Rightarrow> 'w"

definition create :: "'w Writer \<Rightarrow> 'w Emitter" where
  "create writer = \<lparr>emit = (\<lambda>element. writeln writer (JSON_stringify element 0))\<rparr>"

text \<open>
  Modelled from the spec: the \<^verbatim>\<open>FileWriter\<close> of \<^verbatim>\<open>./writer\<close>, which is not among the
  sources. The output is "a single file, one JSON-serializable graph element per line,
  in emission order; no wrapping array, no trailing structure": the sink is the text of
  the file, and \<^verbatim>\<open>writeln\<close> appends the data and a line feed.
\<close>

definition FileWriter :: "string Writer" where
  "FileWriter = \<lparr>writeln = (\<lambda>data sink. sink @ data @ [LF])\<rparr>"

text \<open>A sequence of calls of \<^verbatim>\<open>emit\<close>, in order.\<close>

fun emit_all :: "'w Emitter \<Rightarrow> json list \<Rightarrow> 'w \<Rightarrow> 'w" where
  "emit_all emitter [] sink = sink"
| "emit_all emitter (element # elements) sink = emit_all emitter elements (emit emitter element sink)"

text \<open>The lines of a text: the pieces ended by a line feed, in order.\<close>

fun lines_from :: "string \<Rightarrow> string \<Rightarrow> string list" where
  "lines_from cur [] = []"
| "lines_from cur (c # cs) = (if c = LF then rev cur # lines_from [] cs else lines_from (c # cur) cs)"

definition lines_of :: "string \<Rightarrow> string list" where
  "lines_of text = lines_from [] text"

section \<open>The identifier generator (main.ts, lines 82--87)\<close>

text \<open>
  Identifiers are JavaScript numbers. The counter is modelled as a natural number: the
  two agree as long as the counter stays below \<open>2 ^ 53\<close>, the range in which a JavaScript
  number counts in steps of one.
\<close>

type_synonym Id = nat

text \<open>The \<^verbatim>\<open>Options\<close> of lines 24--32 (\<open>help'\<close> is the option \<^verbatim>\<open>help\<close>).\<close>

record Options =
  help' :: bool
  version :: bool
  projectRoot :: "string option"
  repositoryRoot :: "string option"
  addContents :: bool
  inferTypings :: bool
  out :: string

text \<open>
  \<open>createIdGenerator\<close> gives the initial value of the variable \<^verbatim>\<open>counter\<close> that the returned
  closure captures; \<open>idGenerator\<close> is the closure, \<^verbatim>\<open>return counter++\<close>: it returns the old
  value and leaves its successor. \<open>draws n\<close> is \<open>n\<close> successive calls.
\<close>

definition createIdGenerator :: "Options \<Rightarrow> nat" where
  "createIdGenerator opts0 = 1"

definition idGenerator :: "nat \<Rightarrow> Id \<times> nat" where
  "idGenerator counter0 = (counter0, counter0 + 1)"

fun draws :: "nat \<Rightarrow> nat \<Rightarrow> Id list \<times> nat" where
  "draws 0 c = ([], c)"
| "draws (Suc n) c =
     (let (i, c1) = idGenerator c; (ids, c2) = draws n c1 in (i # ids, c2))"

section \<open>The orchestrator's world\<close>

text \<open>A call ends by returning a value or by throwing.\<close>

datatype error = Error string | TypeError string

datatype 'a outcome = Return 'a | Throw error

text \<open>
  \<^verbatim>\<open>ts.CompilerOptions\<close>: the two options the orchestrator reads, and the others as
  \<open>settings\<close>. \<^verbatim>\<open>ts.ParsedCommandLine\<close>: a resolved configuration.
\<close>

record CompilerOptions =
  project :: "string option"
  types :: "string list option"
  settings :: "(string \<times> json) list"

record ParsedCommandLine =
  options :: CompilerOptions
  fileNames :: "string list"
  projectReferences :: "string list option"
  errors :: "string list"

text \<open>
  The object read from a configuration file (\<^verbatim>\<open>readResult.config\<close>): its
  \<^verbatim>\<open>compilerOptions\<close> member, which is absent, \<^verbatim>\<open>null\<close> or an object, and its other members.
  A \<^verbatim>\<open>compilerOptions\<close> member that is a number, a string, a boolean or an array is
  outside the model.
\<close>

datatype member = Undefined | Null | Object "(string \<times> json) list"

record tsconfig =
  compilerOptions :: member
  members :: "(string \<times> json) list"

text \<open>
  What the orchestrator reads of the resolution engine's answers, and the constant parts
  of the host it builds at lines 133--177. The host's \<^verbatim>\<open>getScriptSnapshot\<close> is the
  operation of the first section, and \<open>snapshots\<close> is the map it closes over as line 132
  creates it; its remaining members pass \<^verbatim>\<open>ts.sys\<close> through.
\<close>

record ResolvedProjectReference =
  commandLine :: ParsedCommandLine

record Program =
  getResolvedProjectReferences :: "ResolvedProjectReference option list option"

record LanguageServiceHost =
  getScriptFileNames :: "string list"
  getCompilationSettings :: CompilerOptions
  getProjectReferences :: "string list option"
  getScriptVersion :: "string \<Rightarrow> string"
  getProjectVersion :: string
  getCurrentDirectory :: string
  snapshots :: "string \<rightharpoonup> IScriptSnapshot"

text \<open>
  Modelled from the spec: the \<^verbatim>\<open>ProjectInfo\<close> of \<^verbatim>\<open>./lsif\<close>, which is not among the sources:
  an identifier, the path of the configuration file (may be absent) and the ProjectInfo of
  the projects depended on.
\<close>

datatype ProjectInfo =
  ProjectInfo (info_id: Id) (info_config: "string option") (info_dependsOn: "ProjectInfo list")

text \<open>
  The arguments of a call of the visitor \<^verbatim>\<open>lsif\<close> (line 199) that differ from call to
  call; the emitter, the generator and the linkers are the same objects in every call.
\<close>

record VisitorCall =
  languageService :: Program
  visitorOptions :: Options
  dependsOn :: "ProjectInfo list"
  tsConfigFile :: "string option"

text \<open>
  Modelled from the spec: a collaborator that holds the shared generator and emitter (the
  visitor of \<^verbatim>\<open>./lsif\<close> and the constructors of \<^verbatim>\<open>./linker\<close>, which are not among the
  sources). By its contract, \<^verbatim>\<open>visit(program, options, dependsOn, emitter, idGenerator,
  importLinker, exportLinker, configPath)\<close> returns a ProjectInfo or none; on the way it
  draws identifiers (each continuation depends on the identifier received), emits
  elements, and may throw. It changes nothing else of the orchestrator's state.
\<close>

datatype 'a script =
    Done 'a
  | Draw "Id \<Rightarrow> 'a script"
  | Emit json "'a script"
  | Raise error

text \<open>
  Everything the orchestrator calls and does not define, as parameters: the process
  (\<open>cwd\<close>, \<open>args\<close>, the parsed options), Node's \<^verbatim>\<open>path\<close>, \<^verbatim>\<open>fs\<close> and \<^verbatim>\<open>child_process\<close>,
  TypeScript, and the modules of this repository that are not among the sources:
  \<^verbatim>\<open>./typescripts\<close> (\<open>getDefaultCompilerOptions\<close>, \<open>makeAbsolute\<close>), \<^verbatim>\<open>./typings\<close>
  (\<open>installTypings\<close>, \<open>guessTypings\<close>), \<^verbatim>\<open>./lsif\<close> (\<open>lsif\<close>), \<^verbatim>\<open>./linker\<close>, \<^verbatim>\<open>./package\<close>
  and \<^verbatim>\<open>./consts\<close>. What reads the disk takes it as an argument; what may write to it
  returns the disk it leaves.
\<close>

record env =
  cwd :: string
  path_resolve :: "string \<Rightarrow> string"
  path_join :: "string \<Rightarrow> string \<Rightarrow> string"
  path_dirname :: "string \<Rightarrow> string"
  readConfigFile :: "sys \<Rightarrow> string \<Rightarrow> string + tsconfig"
  formatDiagnostics :: "string list \<Rightarrow> string"
  getDefaultCompilerOptions :: "string \<Rightarrow> (string \<times> json) list"
  parseJsonConfigFileContent :: "tsconfig \<Rightarrow> sys \<Rightarrow> string \<Rightarrow> ParsedCommandLine"
  execSync :: "string \<Rightarrow> error + string"
  makeAbsolute :: "string \<Rightarrow> string"
  installTypings :: "string \<Rightarrow> string \<Rightarrow> string list \<Rightarrow> sys \<Rightarrow> error + sys"
  guessTypings :: "string \<Rightarrow> string \<Rightarrow> sys \<Rightarrow> error + sys"
  getProgram :: "sys \<Rightarrow> LanguageServiceHost \<Rightarrow> Program option"
  lsif :: "VisitorCall \<Rightarrow> ProjectInfo option script"
  args :: "string list"
  argv_options :: Options
  toolVersion :: string
  path_posix_dirname :: "string \<Rightarrow> string"
  path_isAbsolute :: "string \<Rightarrow> bool"
  PackageJson_read :: "sys \<Rightarrow> string \<Rightarrow> json option"
  openSync :: "sys \<Rightarrow> string \<Rightarrow> error + sys"
  parseCommandLine :: "string list \<Rightarrow> ParsedCommandLine"
  newImportLinker :: "string \<Rightarrow> unit script"
  newExportLinker :: "string \<Rightarrow> json \<Rightarrow> unit script"

text \<open>
  The state the orchestrator works on: the generator's \<open>counter\<close>, the text written to
  the output file (\<open>sink\<close>), the two console streams, \<^verbatim>\<open>process.exitCode\<close>, the shared
  \<^verbatim>\<open>options\<close> object (\<open>opts\<close>) and the disk. Three logs record what happened: \<open>drawn\<close>, the
  identifiers handed out with who drew them (the linkers' constructors, or the visitor of
  the call at a position in the tree of references: \<open>[]\<close> is the root, \<open>path @ [i]\<close> the
  reference number \<open>i\<close> of \<open>path\<close>); \<open>commands\<close>, the commands run by \<^verbatim>\<open>execSync\<close>; and
  \<open>visits\<close>, the calls of the visitor.
\<close>

datatype origin = Setup | Project "nat list"

record world =
  counter :: nat
  drawn :: "(origin \<times> Id) list"
  sink :: string
  stderr :: "string list"
  stdout :: "string list"
  exitCode :: "int option"
  opts :: Options
  commands :: "string list"
  visits :: "VisitorCall list"
  disk :: sys

text \<open>Running a collaborator against the shared generator and emitter.\<close>

primrec run_script ::
  "origin \<Rightarrow> string Emitter \<Rightarrow> 'a script \<Rightarrow> world \<Rightarrow> 'a outcome \<times> world" where
  "run_script who emitter (Done a) = (\<lambda>s. (Return a, s))"
| "run_script who emitter (Draw k) =
     (\<lambda>s. let (i, c) = idGenerator (counter s)
          in run_script who emitter (k i) (s\<lparr>counter := c, drawn := drawn s @ [(who, i)]\<rparr>))"
| "run_script who emitter (Emit element k) =
     (\<lambda>s. run_script who emitter k (s\<lparr>sink := emit emitter element (sink s)\<rparr>))"
| "run_script who emitter (Raise e) = (\<lambda>s. (Throw e, s))"

section \<open>Loading a configuration file (main.ts, lines 64--80)\<close>

text \<open>
  \<^verbatim>\<open>Object.assign(target, source)\<close> on objects with string keys: every property of the
  source is set on the target in order, replacing the value of a key the target has and
  appending a new key. A target that is \<^verbatim>\<open>null\<close> (or \<^verbatim>\<open>undefined\<close>) throws a TypeError.
\<close>

fun set_property :: "string \<Rightarrow> json \<Rightarrow> (string \<times> json) list \<Rightarrow> (string \<times> json) list" where
  "set_property k v [] = [(k, v)]"
| "set_property k v ((k', v') # ps) =
     (if k' = k then (k, v) # ps else (k', v') # set_property k v ps)"

fun assign_properties ::
  "(string \<times> json) list \<Rightarrow> (string \<times> json) list \<Rightarrow> (string \<times> json) list" where
  "assign_properties target [] = target"
| "assign_properties target ((k, v) # source) = assign_properties (set_property k v target) source"

definition Object_assign :: "member \<Rightarrow> (string \<times> json) list \<Rightarrow> error + member" where
  "Object_assign target source =
     (case target of
        Object ps \<Rightarrow> Inr (Object (assign_properties ps source))
      | _ \<Rightarrow> Inl (TypeError ''Cannot convert undefined or null to object''))"

text \<open>
  \<open>loadConfigFile\<close> in three parts: reading (lines 65--71), the forced defaults (lines
  72--74, \<open>applyDefaults\<close>) and parsing (lines 75--79, \<open>parseConfig\<close>).
\<close>

definition applyDefaults :: "env \<Rightarrow> string \<Rightarrow> tsconfig \<Rightarrow> error + tsconfig" where
  "applyDefaults env name config =
     (if compilerOptions config \<noteq> Undefined
      then (case Object_assign (compilerOptions config) (getDefaultCompilerOptions env name) of
              Inl e \<Rightarrow> Inl e
            | Inr merged \<Rightarrow> Inr (config\<lparr>compilerOptions := merged\<rparr>))
      else Inr config)"

definition parseConfig :: "env \<Rightarrow> sys \<Rightarrow> string \<Rightarrow> tsconfig \<Rightarrow> error + ParsedCommandLine" where
  "parseConfig env fs absolute config =
     (let result = parseJsonConfigFileContent env config fs (path_dirname env absolute)
      in if length (errors result) > 0
         then Inl (Error (formatDiagnostics env (errors result)))
         else Inr result)"

definition loadConfigFile :: "env \<Rightarrow> sys \<Rightarrow> string \<Rightarrow> error + ParsedCommandLine" where
  "loadConfigFile env fs name =
     (let absolute = path_resolve env name
      in case readConfigFile env fs absolute of
           Inl diagnostic \<Rightarrow> Inl (Error (formatDiagnostics env [diagnostic]))
         | Inr config \<Rightarrow>
             (case applyDefaults env name config of
                Inl e \<Rightarrow> Inl e
              | Inr config' \<Rightarrow> parseConfig env fs absolute config'))"

section \<open>Processing a project (main.ts, lines 89--200)\<close>

text \<open>
  The function is a sequence of steps, each of which either goes on (\<open>Next\<close>) or ends the
  call (\<open>Stop\<close>) by \<^verbatim>\<open>return undefined\<close> or by an exception; \<open>bind\<close> runs a step and then
  the rest.
\<close>

datatype 'a flow = Next 'a | Stop "ProjectInfo option outcome"

definition bind ::
  "(world \<Rightarrow> 'a flow \<times> world) \<Rightarrow> ('a \<Rightarrow> world \<Rightarrow> 'b flow \<times> world)
     \<Rightarrow> world \<Rightarrow> 'b flow \<times> world" where
  "bind m f s = (case m s of (Next a, s1) \<Rightarrow> f a s1 | (Stop r, s1) \<Rightarrow> (Stop r, s1))"

definition console_error :: "string \<Rightarrow> world \<Rightarrow> world" where
  "console_error message s = s\<lparr>stderr := stderr s @ [message]\<rparr>"

text \<open>Lines 90--104: the configuration file of an explicit project path.\<close>

definition resolveConfig ::
  "env \<Rightarrow> ParsedCommandLine \<Rightarrow> world
     \<Rightarrow> (string option \<times> ParsedCommandLine) flow \<times> world" where
  "resolveConfig env config s =
     (case project (options config) of
        None \<Rightarrow> (Next (None, config), s)
      | Some p \<Rightarrow>
          if p = [] then (Next (None, config), s)
          else
            (let projectPath = path_resolve env p;
                 tsconfigFileName =
                   (if directoryExists (disk s) projectPath
                    then path_join env projectPath ''tsconfig.json''
                    else projectPath)
             in if \<not> fileExists (disk s) tsconfigFileName
                then (Stop (Return None),
                      (console_error
                         (''Project configuration file '' @ tsconfigFileName @ '' does not exist'') s)
                        \<lparr>exitCode := Some 1\<rparr>)
                else (case loadConfigFile env (disk s) tsconfigFileName of
                        Inl e \<Rightarrow> (Stop (Throw e), s)
                      | Inr config' \<Rightarrow> (Next (Some tsconfigFileName, config'), s))))"

text \<open>Lines 106--110.\<close>

definition checkInputFiles :: "ParsedCommandLine \<Rightarrow> world \<Rightarrow> unit flow \<times> world" where
  "checkInputFiles config s =
     (if length (fileNames config) = 0
      then (Stop (Return None), (console_error ''No input files specified.'' s)\<lparr>exitCode := Some 1\<rparr>)
      else (Next (), s))"

text \<open>
  Lines 112--120. \<^verbatim>\<open>trimRight\<close> drops trailing white space and line terminators (those
  among the characters below 256).
\<close>

definition is_space :: "char \<Rightarrow> bool" where
  "is_space c = (c \<in> {CHR '' '', CHR 0x09, CHR 0x0A, CHR 0x0B, CHR 0x0C, CHR 0x0D, CHR 0xA0})"

definition trimRight :: "string \<Rightarrow> string" where
  "trimRight s = rev (dropWhile is_space (rev s))"

definition resolveRoots :: "env \<Rightarrow> world \<Rightarrow> string flow \<times> world" where
  "resolveRoots env s =
     (let root = makeAbsolute env (case projectRoot (opts s) of None \<Rightarrow> cwd env | Some p \<Rightarrow> p);
          s1 = s\<lparr>opts := (opts s)\<lparr>projectRoot := Some root\<rparr>\<rparr>
      in case repositoryRoot (opts s1) of
           Some r \<Rightarrow>
             (Next root, s1\<lparr>opts := (opts s1)\<lparr>repositoryRoot := Some (makeAbsolute env r)\<rparr>\<rparr>)
         | None \<Rightarrow>
             (let s2 = s1\<lparr>commands := commands s1 @ [''git rev-parse --show-toplevel'']\<rparr>
              in case execSync env ''git rev-parse --show-toplevel'' of
                   Inl e \<Rightarrow> (Stop (Throw e), s2)
                 | Inr printed \<Rightarrow>
                     (Next root,
                      s2\<lparr>opts := (opts s2)\<lparr>repositoryRoot :=
                                   Some (makeAbsolute env (trimRight printed))\<rparr>\<rparr>)))"

text \<open>Lines 122--129; \<open>root\<close> is \<^verbatim>\<open>options.projectRoot\<close>, a string by now.\<close>

definition inferTypes ::
  "env \<Rightarrow> string option \<Rightarrow> ParsedCommandLine \<Rightarrow> string \<Rightarrow> world \<Rightarrow> unit flow \<times> world" where
  "inferTypes env tsconfigFileName config root s =
     (if inferTypings (opts s)
      then (case (case types (options config) of
                    Some ts \<Rightarrow>
                      installTypings env root
                        (case tsconfigFileName of Some f \<Rightarrow> f | None \<Rightarrow> cwd env) ts (disk s)
                  | None \<Rightarrow>
                      guessTypings env root
                        (case tsconfigFileName of Some f \<Rightarrow> path_dirname env f | None \<Rightarrow> cwd env)
                        (disk s)) of
              Inl e \<Rightarrow> (Stop (Throw e), s)
            | Inr d \<Rightarrow> (Next (), s\<lparr>disk := d\<rparr>))
      else (Next (), s))"

text \<open>Lines 132--184: the host, and the program of the language service.\<close>

definition createHost :: "env \<Rightarrow> string option \<Rightarrow> ParsedCommandLine \<Rightarrow> LanguageServiceHost" where
  "createHost env tsconfigFileName config =
     \<lparr>getScriptFileNames = fileNames config,
      getCompilationSettings = options config,
      getProjectReferences = projectReferences config,
      getScriptVersion = (\<lambda>fileName. ''0''),
      getProjectVersion = ''0'',
      getCurrentDirectory =
        (case tsconfigFileName of Some f \<Rightarrow> path_dirname env f | None \<Rightarrow> cwd env),
      snapshots = scriptSnapshots new_host\<rparr>"

definition createProgram ::
  "env \<Rightarrow> string option \<Rightarrow> ParsedCommandLine \<Rightarrow> world \<Rightarrow> Program flow \<times> world" where
  "createProgram env tsconfigFileName config s =
     (case getProgram env (disk s) (createHost env tsconfigFileName config) of
        None \<Rightarrow>
          (Stop (Return None),
           (console_error ''Couldn't create language service with underlying program.'' s)
             \<lparr>exitCode := Some (- 1)\<rparr>)
      | Some program \<Rightarrow> (Next program, s))"

text \<open>Lines 90--184 together.\<close>

definition prepare ::
  "env \<Rightarrow> ParsedCommandLine \<Rightarrow> world \<Rightarrow> (string option \<times> Program) flow \<times> world" where
  "prepare env config0 =
     bind (resolveConfig env config0) (\<lambda>(tsconfigFileName, config).
     bind (checkInputFiles config) (\<lambda>_.
     bind (resolveRoots env) (\<lambda>root.
     bind (inferTypes env tsconfigFileName config root) (\<lambda>_.
     bind (createProgram env tsconfigFileName config) (\<lambda>program s.
       (Next (tsconfigFileName, program), s))))))"

text \<open>
  Lines 198--199: the visitor is called with the options as they are now and the list of
  dependencies collected. (\<^verbatim>\<open>program.getTypeChecker()\<close> changes nothing here.)
\<close>

definition visit ::
  "env \<Rightarrow> string Emitter \<Rightarrow> nat list \<Rightarrow> Program \<Rightarrow> ProjectInfo list \<Rightarrow> string option
     \<Rightarrow> world \<Rightarrow> ProjectInfo option outcome \<times> world" where
  "visit env emitter path program deps tsconfigFileName s =
     (let call = \<lparr>languageService = program, visitorOptions = opts s,
                  dependsOn = deps, tsConfigFile = tsconfigFileName\<rparr>
      in run_script (Project path) emitter (lsif env call) (s\<lparr>visits := visits s @ [call]\<rparr>))"

text \<open>
  \<open>processProject\<close> and the loop of lines 185--196 over the resolved references.
  The recursion goes through the engine's answers, so it is bounded by \<open>fuel\<close>, the depth
  of calls allowed: \<open>None\<close> means the bound was too small. \<open>path\<close> is the position of the
  call in the tree of references and \<open>i\<close> the number of the next reference; they only
  label the log. The calls are awaited one after the other.
\<close>

fun processProject ::
      "nat \<Rightarrow> env \<Rightarrow> string Emitter \<Rightarrow> nat list \<Rightarrow> ParsedCommandLine \<Rightarrow> world
         \<Rightarrow> (ProjectInfo option outcome \<times> world) option"
  and processReferences ::
      "nat \<Rightarrow> env \<Rightarrow> string Emitter \<Rightarrow> nat list \<Rightarrow> nat \<Rightarrow> ResolvedProjectReference option list
         \<Rightarrow> ProjectInfo list \<Rightarrow> world \<Rightarrow> (ProjectInfo list outcome \<times> world) option"
where
  "processProject 0 env emitter path config s = None"
| "processProject (Suc fuel) env emitter path config s =
     (case prepare env config s of
        (Stop r, s1) \<Rightarrow> Some (r, s1)
      | (Next (tsconfigFileName, program), s1) \<Rightarrow>
          (case processReferences fuel env emitter path 0
                  (case getResolvedProjectReferences program of None \<Rightarrow> [] | Some rs \<Rightarrow> rs) [] s1 of
             None \<Rightarrow> None
           | Some (Throw e, s2) \<Rightarrow> Some (Throw e, s2)
           | Some (Return deps, s2) \<Rightarrow>
               Some (visit env emitter path program deps tsconfigFileName s2)))"
| "processReferences fuel env emitter path i [] deps s = Some (Return deps, s)"
| "processReferences fuel env emitter path i (None # rs) deps s =
     processReferences fuel env emitter path (Suc i) rs deps s"
| "processReferences fuel env emitter path i (Some reference # rs) deps s =
     (case processProject fuel env emitter (path @ [i]) (commandLine reference) s of
        None \<Rightarrow> None
      | Some (Throw e, s1) \<Rightarrow> Some (Throw e, s1)
      | Some (Return projectInfo, s1) \<Rightarrow>
          processReferences fuel env emitter path (Suc i) rs
            (case projectInfo of Some info \<Rightarrow> deps @ [info] | None \<Rightarrow> deps) s1)"

text \<open>
  The hosts of one run. Line 132 is inside \<^verbatim>\<open>processProject\<close>: every call that reaches it
  creates a map of its own, and only the host of that call reads and fills it. A run over
  a project with references (the recursion of line 190) has one host for each project it
  processes. The hosts are named by the \<open>path\<close> of their call; a host that is not created
  yet is in the state it will be created with, since nothing but its own requests changes
  its map. The snapshot objects of all hosts are allocated from the one heap of the
  process, so that an allocation number identifies an object in the whole run.
\<close>

record run_hosts =
  snapshots_of :: "nat list \<Rightarrow> string \<rightharpoonup> IScriptSnapshot"
  allocated :: nat

definition fresh_hosts :: run_hosts where
  "fresh_hosts =
     \<lparr>snapshots_of = (\<lambda>path. scriptSnapshots new_host), allocated = next_ref new_host\<rparr>"

text \<open>
  A request \<^verbatim>\<open>getScriptSnapshot(fileName)\<close> to the host of the call at \<open>path\<close>, against the
  disk of its moment, and a sequence of such requests to any hosts of the run.
\<close>

definition request_at ::
  "nat list \<Rightarrow> sys \<Rightarrow> string \<Rightarrow> run_hosts \<Rightarrow> IScriptSnapshot option \<times> run_hosts" where
  "request_at path fs fileName r =
     (let (result, h) =
            getScriptSnapshot fs fileName
              \<lparr>scriptSnapshots = snapshots_of r path, next_ref = allocated r\<rparr>
      in (result,
          \<lparr>snapshots_of = (snapshots_of r)(path := scriptSnapshots h),
           allocated = next_ref h\<rparr>))"

fun requests_at :: "(nat list \<times> sys \<times> string) list \<Rightarrow> run_hosts \<Rightarrow> run_hosts" where
  "requests_at [] r = r"
| "requests_at ((path, fs, fileName) # rs) r =
     requests_at rs (snd (request_at path fs fileName r))"

section \<open>The driver (main.ts, lines 53--61 and 202--273)\<close>

text \<open>The table of lines 53--61 as far as the usage text needs it.\<close>

record OptionDescription =
  id' :: string
  alias' :: "string option"
  description' :: string

definition descriptions :: "OptionDescription list" where
  "descriptions =
     [\<lparr>id' = ''version'', alias' = Some ''v'', description' = ''output the version number''\<rparr>,
      \<lparr>id' = ''help'', alias' = Some ''h'', description' = ''output usage information''\<rparr>,
      \<lparr>id' = ''projectRoot'', alias' = None,
        description' = ''Specifies the project root. Defaults to the current working directory.''\<rparr>,
      \<lparr>id' = ''repositoryRoot'', alias' = None, description' = ''Specifies the repository root.''\<rparr>,
      \<lparr>id' = ''addContents'', alias' = None,
        description' = ''File contents will be embedded into the dump.''\<rparr>,
      \<lparr>id' = ''inferTypings'', alias' = None,
        description' = ''Infer typings for JavaScript npm modules.''\<rparr>,
      \<lparr>id' = ''out'', alias' = None, description' = ''The output file the dump is save to.''\<rparr>]"

definition longestId :: nat where
  "longestId = fold (\<lambda>d m. max m (length (id' d))) descriptions 0"

definition usage_line :: "OptionDescription \<Rightarrow> string" where
  "usage_line d =
     (case alias' d of
        Some a \<Rightarrow> ''  -'' @ a @ '' --'' @ id' d @ replicate (longestId - length (id' d)) CHR '' ''
                   @ '' '' @ description' d
      | None \<Rightarrow> ''  --'' @ id' d @ ''   '' @ replicate (longestId - length (id' d)) CHR '' ''
                   @ '' '' @ description' d)"

definition usage :: "string \<Rightarrow> string" where
  "usage v =
     join [LF]
       ([''Language Server Index Format tool for TypeScript'', ''Version: '' @ v, [],
         ''Usage: lsif-tsc [options][tsc options]'', [], ''Options'']
        @ map usage_line descriptions)"

text \<open>
  \<open>run\<close>: the options, the two early exits, and from line 247 on the package manifest,
  the project root for the linkers, the output file, the generator (created here, once),
  the emitter, the linkers and the root project. (The exit of lines 258--261 cannot be
  taken: \<open>root\<close> is a string.)
\<close>

definition console_log :: "string \<Rightarrow> world \<Rightarrow> world" where
  "console_log message s = s\<lparr>stdout := stdout s @ [message]\<rparr>"

definition startup :: "env \<Rightarrow> sys \<Rightarrow> world" where
  "startup env d =
     \<lparr>counter = 0, drawn = [], sink = [], stderr = [], stdout = [], exitCode = None,
      opts = argv_options env, commands = [], visits = [], disk = d\<rparr>"

definition linkers ::
  "env \<Rightarrow> string Emitter \<Rightarrow> string \<Rightarrow> json option \<Rightarrow> world \<Rightarrow> unit outcome \<times> world" where
  "linkers env emitter root packageJson s =
     (case run_script Setup emitter (newImportLinker env root) s of
        (Throw e, s1) \<Rightarrow> (Throw e, s1)
      | (Return _, s1) \<Rightarrow>
          (case packageJson of
             None \<Rightarrow> (Return (), s1)
           | Some manifest \<Rightarrow> run_script Setup emitter (newExportLinker env root manifest) s1))"

definition run :: "nat \<Rightarrow> env \<Rightarrow> sys \<Rightarrow> (unit outcome \<times> world) option" where
  "run fuel env d =
     (let s = startup env d
      in if version (opts s) then Some (Return (), console_log (toolVersion env) s)
         else if help' (opts s) then Some (Return (), console_log (usage (toolVersion env)) s)
         else
           (let packageFile = makeAbsolute env ''package.json'';
                packageJson = PackageJson_read env (disk s) packageFile;
                root = (case projectRoot (opts s) of
                          Some p \<Rightarrow> p
                        | None \<Rightarrow>
                            (let dir = path_posix_dirname env packageFile
                             in if \<not> path_isAbsolute env dir then makeAbsolute env dir else dir))
            in case openSync env (disk s) (out (opts s)) of
                 Inl e \<Rightarrow> Some (Throw e, s)
               | Inr d1 \<Rightarrow>
                   (let s1 = s\<lparr>disk := d1, sink := []\<rparr>;
                        config = parseCommandLine env (args env);
                        s2 = s1\<lparr>counter := createIdGenerator (opts s1)\<rparr>;
                        emitter = create FileWriter
                    in case linkers env emitter root packageJson s2 of
                         (Throw e, s3) \<Rightarrow> Some (Throw e, s3)
                       | (Return _, s3) \<Rightarrow>
                           (case processProject fuel env emitter [] config s3 of
                              None \<Rightarrow> None
                            | Some (Throw e, s4) \<Rightarrow> Some (Throw e, s4)
                            | Some (Return _, s4) \<Rightarrow> Some (Return (), s4)))))"

section \<open>Predicates used in the proofs\<close>

text \<open>The parts of the world that only a script (a visitor or a constructor) changes.\<close>

definition untouched :: "world \<Rightarrow> world \<Rightarrow> bool" where
  "untouched s s' \<longleftrightarrow>
     counter s' = counter s \<and> drawn s' = drawn s \<and> sink s' = sink s \<and> visits s' = visits s"

text \<open>The parts of the world that no script changes.\<close>

definition script_only :: "world \<Rightarrow> world \<Rightarrow> bool" where
  "script_only s s' \<longleftrightarrow>
     visits s' = visits s \<and> opts s' = opts s \<and> commands s' = commands s \<and> stderr s' = stderr s
     \<and> stdout s' = stdout s \<and> exitCode s' = exitCode s \<and> disk s' = disk s"

text \<open>The log holds \<open>1, 2, \<dots>\<close> up to the counter, which is the next identifier.\<close>

definition numbered :: "world \<Rightarrow> bool" where
  "numbered s \<longleftrightarrow> 1 \<le> counter s \<and> map snd (drawn s) = [1..<counter s]"

text \<open>
  A log respects dependencies when every identifier drawn for a project below \<open>q\<close> in
  the tree of references (a path that properly extends \<open>q\<close>: a project that \<open>q\<close> depends
  on, processed during the recursive calls for the references of \<open>q\<close>) is less than every
  identifier drawn by the visitor of \<open>q\<close> itself.
\<close>

definition dependency_first :: "(origin \<times> Id) list \<Rightarrow> bool" where
  "dependency_first entries \<longleftrightarrow>
     (\<forall>x \<in> set entries. \<forall>y \<in> set entries. \<forall>p q.
        fst x = Project p \<and> fst y = Project q \<and> strict_prefix q p \<longrightarrow> snd x < snd y)"

text \<open>Entries drawn at or below \<open>path\<close>, with identifiers from \<open>c\<close> up to \<open>c'\<close>.\<close>

definition under :: "nat list \<Rightarrow> nat \<Rightarrow> nat \<Rightarrow> (origin \<times> Id) list \<Rightarrow> bool" where
  "under path c c' entries \<longleftrightarrow>
     (\<forall>x \<in> set entries. \<exists>p. fst x = Project p \<and> prefix path p \<and> c \<le> snd x \<and> snd x < c')"

text \<open>Entries drawn at or below a reference of \<open>path\<close> numbered \<open>i\<close> or more.\<close>

definition below :: "nat list \<Rightarrow> nat \<Rightarrow> nat \<Rightarrow> nat \<Rightarrow> (origin \<times> Id) list \<Rightarrow> bool" where
  "below path i c c' entries \<longleftrightarrow>
     (\<forall>x \<in> set entries. \<exists>p j. fst x = Project p \<and> i \<le> j \<and> prefix (path @ [j]) p
        \<and> c \<le> snd x \<and> snd x < c')"

text \<open>
  The spec's reading of step 6, to compare with the loop of lines 185--196: every
  resolved reference is analysed in the order declared, each call starting in the world
  the previous one left, and the value each call returns is collected (no entry for a
  reference the engine did not resolve). An exception ends the analyses.
\<close>

fun analyses ::
  "nat \<Rightarrow> env \<Rightarrow> string Emitter \<Rightarrow> nat list \<Rightarrow> nat \<Rightarrow> ResolvedProjectReference option list
     \<Rightarrow> world \<Rightarrow> (ProjectInfo option list outcome \<times> world) option" where
  "analyses fuel env emitter path i [] s = Some (Return [], s)"
| "analyses fuel env emitter path i (None # rs) s = analyses fuel env emitter path (Suc i) rs s"
| "analyses fuel env emitter path i (Some reference # rs) s =
     (case processProject fuel env emitter (path @ [i]) (commandLine reference) s of
        None \<Rightarrow> None
      | Some (Throw e, s1) \<Rightarrow> Some (Throw e, s1)
      | Some (Return result, s1) \<Rightarrow>
          (case analyses fuel env emitter path (Suc i) rs s1 of
             None \<Rightarrow> None
           | Some (Throw e, s2) \<Rightarrow> Some (Throw e, s2)
           | Some (Return results, s2) \<Rightarrow> Some (Return (result # results), s2)))"

text \<open>The ProjectInfo of the analyses that produced one, in order.\<close>

definition produced :: "ProjectInfo option list \<Rightarrow> ProjectInfo list" where
  "produced results = [info. Some info \<leftarrow> results]"

text \<open>Both roots are filled in, and \<open>makeAbsolute\<close> leaves them as they are.\<close>

definition settled :: "env \<Rightarrow> world \<Rightarrow> bool" where
  "settled env s \<longleftrightarrow>
     (\<exists>pr rr. projectRoot (opts s) = Some pr \<and> repositoryRoot (opts s) = Some rr
        \<and> makeAbsolute env pr = pr \<and> makeAbsolute env rr = rr)"

text \<open>
  What a call at \<open>path\<close>, and what the loop over the references of \<open>path\<close> from
  number \<open>i\<close> on, add to the log.
\<close>

definition project_log :: "nat list \<Rightarrow> world \<Rightarrow> world \<Rightarrow> bool" where
  "project_log path s s' \<longleftrightarrow>
     counter s \<le> counter s'
     \<and> (\<exists>entries. drawn s' = drawn s @ entries
           \<and> under path (counter s) (counter s') entries \<and> dependency_first entries)"

definition references_log :: "nat list \<Rightarrow> nat \<Rightarrow> world \<Rightarrow> world \<Rightarrow> bool" where
  "references_log path i s s' \<longleftrightarrow>
     counter s \<le> counter s'
     \<and> (\<exists>entries. drawn s' = drawn s @ entries
           \<and> below path i (counter s) (counter s') entries \<and> dependency_first entries)"

text \<open>The options and the commands run are the same.\<close>

definition same_options :: "world \<Rightarrow> world \<Rightarrow> bool" where
  "same_options s s' \<longleftrightarrow> opts s' = opts s \<and> commands s' = commands s"

text \<open>
  From settled roots on: the options and the commands stay as they are, and every
  new call of the visitor is handed these options.
\<close>

definition kept :: "env \<Rightarrow> world \<Rightarrow> world \<Rightarrow> bool" where
  "kept env s s' \<longleftrightarrow>
     (settled env s \<longrightarrow>
        same_options s s'
        \<and> (\<exists>calls. visits s' = visits s @ calls \<and> (\<forall>v \<in> set calls. visitorOptions v = opts s)))"

text \<open>Both roots are filled in; from then on they stay so and no command is run.\<close>

definition filled :: "world \<Rightarrow> bool" where
  "filled s \<longleftrightarrow> projectRoot (opts s) \<noteq> None \<and> repositoryRoot (opts s) \<noteq> None"

definition quiet :: "world \<Rightarrow> world \<Rightarrow> bool" where
  "quiet s s' \<longleftrightarrow> (filled s \<longrightarrow> filled s' \<and> commands s' = commands s)"

section \<open>A small world for the examples\<close>

text \<open>
  A workspace \<^verbatim>\<open>/w\<close> whose \<^verbatim>\<open>tsconfig.json\<close> lists one file and four references:
  \<^verbatim>\<open>lib\<close> and \<^verbatim>\<open>util\<close> (one file each), \<^verbatim>\<open>gone\<close> (no input files) and one that the
  engine could not resolve. \<^verbatim>\<open>/w/lib/tsconfig.json\<close> has no \<^verbatim>\<open>compilerOptions\<close> section.
\<close>

definition demo_disk :: sys where
  "demo_disk =
     \<lparr>fileExists = (\<lambda>f. f \<in> {''/w/tsconfig.json'', ''/w/lib/tsconfig.json'', ''/w/a.ts''}),
      readFile = (\<lambda>f. if f = ''/w/a.ts'' then Some ''export const a = 1'' else None),
      directoryExists = (\<lambda>f. f \<in> {''/w'', ''/w/lib''})\<rparr>"

definition demo_resolve :: "string \<Rightarrow> string" where
  "demo_resolve p = (case p of [] \<Rightarrow> ''/w'' | c # _ \<Rightarrow> if c = CHR ''/'' then p else ''/w/'' @ p)"

definition demo_dirname :: "string \<Rightarrow> string" where
  "demo_dirname p = rev (drop 1 (dropWhile (\<lambda>c. c \<noteq> CHR ''/'') (rev p)))"

definition demo_commandLine :: "string list \<Rightarrow> string list option \<Rightarrow> ParsedCommandLine" where
  "demo_commandLine fs rs =
     \<lparr>options = \<lparr>project = None, types = None, settings = []\<rparr>,
      fileNames = fs, projectReferences = rs, errors = []\<rparr>"

definition demo_parse :: "tsconfig \<Rightarrow> sys \<Rightarrow> string \<Rightarrow> ParsedCommandLine" where
  "demo_parse config fs dir =
     \<lparr>options = \<lparr>project = None, types = None,
                 settings = (case compilerOptions config of Object ps \<Rightarrow> ps | _ \<Rightarrow> [])\<rparr>,
      fileNames = (case map_of (members config) ''files'' of
                     Some (JArray xs) \<Rightarrow> [dir @ ''/'' @ f. JString f \<leftarrow> xs]
                   | _ \<Rightarrow> []),
      projectReferences = (case map_of (members config) ''references'' of
                     Some (JArray xs) \<Rightarrow> Some [f. JString f \<leftarrow> xs]
                   | _ \<Rightarrow> None),
      errors = []\<rparr>"

definition demo_project :: "string \<Rightarrow> ParsedCommandLine" where
  "demo_project p =
     \<lparr>options = \<lparr>project = Some p, types = None, settings = []\<rparr>,
      fileNames = [], projectReferences = None, errors = []\<rparr>"

definition demo_reference :: "string \<Rightarrow> ResolvedProjectReference option" where
  "demo_reference p =
     (if p = ''lib'' then Some \<lparr>commandLine = demo_commandLine [''/w/lib/b.ts''] None\<rparr>
      else if p = ''util'' then Some \<lparr>commandLine = demo_commandLine [''/w/util/c.ts''] None\<rparr>
      else if p = ''gone'' then Some \<lparr>commandLine = demo_commandLine [] None\<rparr>
      else None)"

definition demo_lsif :: "VisitorCall \<Rightarrow> ProjectInfo option script" where
  "demo_lsif call =
     Draw (\<lambda>i. Emit (JObject [(''id'', JNumber (int i)), (''type'', JString ''vertex''),
                               (''label'', JString ''project'')])
               (Done (Some (ProjectInfo i (tsConfigFile call) (dependsOn call)))))"

definition demo_options :: Options where
  "demo_options =
     \<lparr>help' = False, version = False, projectRoot = None, repositoryRoot = None,
      addContents = False, inferTypings = False, out = ''dump.lsif''\<rparr>"

definition demo_env :: env where
  "demo_env =
     \<lparr>cwd = ''/w'',
      path_resolve = demo_resolve,
      path_join = (\<lambda>a b. a @ ''/'' @ b),
      path_dirname = demo_dirname,
      readConfigFile = (\<lambda>fs f.
        if f = ''/w/tsconfig.json''
        then Inr \<lparr>compilerOptions = Object [(''strict'', JBool True), (''allowJs'', JBool False)],
                  members = [(''files'', JArray [JString ''a.ts'']),
                             (''references'', JArray [JString ''lib'', JString ''gone'',
                                                      JString ''lost'', JString ''util''])]\<rparr>
        else if f = ''/w/lib/tsconfig.json''
        then Inr \<lparr>compilerOptions = Undefined, members = [(''files'', JArray [JString ''b.ts''])]\<rparr>
        else Inl ''Cannot read file.''),
      formatDiagnostics = concat,
      getDefaultCompilerOptions = (\<lambda>f. [(''allowJs'', JBool True)]),
      parseJsonConfigFileContent = demo_parse,
      execSync = (\<lambda>c. Inr (''/w'' @ [LF])),
      makeAbsolute = demo_resolve,
      installTypings = (\<lambda>root start ts d. Inr d),
      guessTypings = (\<lambda>root start d. Inr d),
      getProgram = (\<lambda>fs host.
        Some \<lparr>getResolvedProjectReferences =
                 map_option (map demo_reference) (getProjectReferences host)\<rparr>),
      lsif = demo_lsif,
      args = [''-p'', ''/w''],
      argv_options = demo_options,
      toolVersion = ''0.5.4'',
      path_posix_dirname = demo_dirname,
      path_isAbsolute = (\<lambda>p. take 1 p = ''/''),
      PackageJson_read = (\<lambda>fs f. None),
      openSync = (\<lambda>fs f. Inr fs),
      parseCommandLine = (\<lambda>as. case as of [''-p'', p] \<Rightarrow> demo_project p | _ \<Rightarrow> demo_commandLine as None),
      newImportLinker = (\<lambda>root. Done ()),
      newExportLinker = (\<lambda>root manifest. Done ())\<rparr>"

text \<open>
  The world of the example run when the root project is about to be processed (line 272):
  the generator has just been created.
\<close>

definition demo_world :: world where
  "demo_world = (startup demo_env demo_disk)\<lparr>counter := createIdGenerator demo_options\<rparr>"

section \<open>Properties of the snapshot cache\<close>

lemma getScriptSnapshot_cached:
  "scriptSnapshots h F = Some snap \<Longrightarrow> getScriptSnapshot fs F h = (Some snap, h)"
  by (simp add: getScriptSnapshot_def)

lemma getScriptSnapshot_keeps:
  assumes "scriptSnapshots h F = Some snap"
  shows "scriptSnapshots (snd (getScriptSnapshot fs G h)) F = Some snap"
  using assms
  by (auto simp: getScriptSnapshot_def fromString_def split: option.splits)

lemma getScriptSnapshot_Some_cached:
  assumes "getScriptSnapshot fs F h = (Some snap, h')"
  shows "scriptSnapshots h' F = Some snap"
  using assms
  by (auto simp: getScriptSnapshot_def fromString_def split: option.splits if_splits)

lemma requests_keep:
  "scriptSnapshots h F = Some snap \<Longrightarrow> scriptSnapshots (requests rs h) F = Some snap"
proof (induction rs arbitrary: h)
  case Nil
  then show ?case by simp
next
  case (Cons r rs)
  obtain fs G where r: "r = (fs, G)" by (cases r)
  from Cons.prems have "scriptSnapshots (snd (getScriptSnapshot fs G h)) F = Some snap"
    by (rule getScriptSnapshot_keeps)
  then show ?case using Cons.IH r by simp
qed

text \<open>
  C5, for one host. Once a request for \<open>F\<close> has returned a snapshot, every later request
  for \<open>F\<close> on the same host returns that very snapshot object (same identity, same text)
  and leaves the host as it is, whatever the disk \<open>fs2\<close> holds by then and whatever other
  requests \<open>between\<close> were served in the meantime. The state \<open>h\<close> is the state of one
  host, the one a single call of \<^verbatim>\<open>processProject\<close> builds: the statement does not reach
  from the host of one project to the host of another.
\<close>

theorem getScriptSnapshot_cache_coherent:
  assumes "getScriptSnapshot fs1 F h = (Some snap, h1)"
  shows "getScriptSnapshot fs2 F (requests between h1) = (Some snap, requests between h1)"
proof -
  from assms have "scriptSnapshots h1 F = Some snap"
    by (rule getScriptSnapshot_Some_cached)
  then have "scriptSnapshots (requests between h1) F = Some snap"
    by (rule requests_keep)
  then show ?thesis by (rule getScriptSnapshot_cached)
qed

theorem getScriptSnapshot_cache_coherent_witness:
  "getScriptSnapshot (disk_with ''a.ts'' ''let x = 1'') ''a.ts'' new_host
     = (Some \<lparr>snapshot_ref = 0, snapshot_text = ''let x = 1''\<rparr>,
        \<lparr>scriptSnapshots = [''a.ts'' \<mapsto> \<lparr>snapshot_ref = 0, snapshot_text = ''let x = 1''\<rparr>],
         next_ref = 1\<rparr>)
   \<and> fst (getScriptSnapshot (disk_with ''a.ts'' ''let x = 2'') ''a.ts''
        (requests [(empty_disk, ''b.ts'')]
          \<lparr>scriptSnapshots = [''a.ts'' \<mapsto> \<lparr>snapshot_ref = 0, snapshot_text = ''let x = 1''\<rparr>],
           next_ref = 1\<rparr>))
     = Some \<lparr>snapshot_ref = 0, snapshot_text = ''let x = 1''\<rparr>"
proof -
  have first: "getScriptSnapshot (disk_with ''a.ts'' ''let x = 1'') ''a.ts'' new_host
     = (Some \<lparr>snapshot_ref = 0, snapshot_text = ''let x = 1''\<rparr>,
        \<lparr>scriptSnapshots = [''a.ts'' \<mapsto> \<lparr>snapshot_ref = 0, snapshot_text = ''let x = 1''\<rparr>],
         next_ref = 1\<rparr>)"
    by (simp add: getScriptSnapshot_def fromString_def new_host_def disk_with_def)
  from getScriptSnapshot_cache_coherent [OF first,
      of "disk_with ''a.ts'' ''let x = 2''" "[(empty_disk, ''b.ts'')]"] first
  show ?thesis by simp
qed

text \<open>
  The same within a run of several hosts: the host of the call at \<open>path\<close> keeps answering
  with the snapshot it returned first, whatever requests the hosts of the run, this one
  and the others, serve in between.
\<close>

lemma createHost_snapshots:
  "snapshots (createHost env tsconfigFileName config) = snapshots_of fresh_hosts path"
  by (simp add: createHost_def fresh_hosts_def)

lemma request_at_cached:
  assumes "snapshots_of r path F = Some snap"
  shows "request_at path fs F r = (Some snap, r)"
  using assms by (simp add: request_at_def getScriptSnapshot_def)

lemma request_at_keeps:
  assumes "snapshots_of r path F = Some snap"
  shows "snapshots_of (snd (request_at p fs G r)) path F = Some snap"
  using assms
  by (auto simp: request_at_def getScriptSnapshot_def fromString_def split: option.splits)

lemma request_at_Some_cached:
  assumes "request_at path fs F r = (Some snap, r1)"
  shows "snapshots_of r1 path F = Some snap"
  using assms
  by (auto simp: request_at_def getScriptSnapshot_def fromString_def
      split: option.splits if_splits)

lemma requests_at_keep:
  "snapshots_of r path F = Some snap \<Longrightarrow> snapshots_of (requests_at rs r) path F = Some snap"
proof (induction rs arbitrary: r)
  case Nil
  then show ?case by simp
next
  case (Cons q rs)
  obtain p fs G where q: "q = (p, fs, G)" by (cases q)
  from Cons.prems have "snapshots_of (snd (request_at p fs G r)) path F = Some snap"
    by (rule request_at_keeps)
  then show ?case using Cons.IH q by simp
qed

lemma request_at_same_host:
  assumes "request_at path fs1 F r = (Some snap, r1)"
  shows "request_at path fs2 F (requests_at between r1) = (Some snap, requests_at between r1)"
proof -
  from assms have "snapshots_of r1 path F = Some snap"
    by (rule request_at_Some_cached)
  then have "snapshots_of (requests_at between r1) path F = Some snap"
    by (rule requests_at_keep)
  then show ?thesis by (rule request_at_cached)
qed

text \<open>
  The claim as written, for any two requests within one run, fails. A run over a project
  and a project it references has two hosts. The host of the root is asked for
  \<^verbatim>\<open>/w/shared.ts\<close> when its program is created (line 179) and returns a snapshot of
  \<^verbatim>\<open>let x = 1\<close>; the file changes; the host of the reference (the call of line 190,
  at \<open>[0]\<close>) is asked for the same file, finds its own map empty, reads the disk and
  returns another object, with the text \<^verbatim>\<open>let x = 2\<close>. Asked once more, the host of the
  root still returns its first snapshot: at that moment the two hosts of the run answer
  differently for one file.
\<close>

theorem getScriptSnapshot_cache_coherent_counterexample:
  "fst (request_at [] (disk_with ''/w/shared.ts'' ''let x = 1'') ''/w/shared.ts'' fresh_hosts)
     = Some \<lparr>snapshot_ref = 0, snapshot_text = ''let x = 1''\<rparr>
   \<and> fst (request_at [0] (disk_with ''/w/shared.ts'' ''let x = 2'') ''/w/shared.ts''
        (snd (request_at [] (disk_with ''/w/shared.ts'' ''let x = 1'') ''/w/shared.ts''
               fresh_hosts)))
     = Some \<lparr>snapshot_ref = 1, snapshot_text = ''let x = 2''\<rparr>
   \<and> fst (request_at [] (disk_with ''/w/shared.ts'' ''let x = 2'') ''/w/shared.ts''
        (snd (request_at [0] (disk_with ''/w/shared.ts'' ''let x = 2'') ''/w/shared.ts''
               (snd (request_at [] (disk_with ''/w/shared.ts'' ''let x = 1'') ''/w/shared.ts''
                      fresh_hosts)))))
     = Some \<lparr>snapshot_ref = 0, snapshot_text = ''let x = 1''\<rparr>
   \<and> fst (request_at [0] (disk_with ''/w/shared.ts'' ''let x = 2'') ''/w/shared.ts''
        (snd (request_at [] (disk_with ''/w/shared.ts'' ''let x = 1'') ''/w/shared.ts''
               fresh_hosts)))
     \<noteq> fst (request_at [] (disk_with ''/w/shared.ts'' ''let x = 1'') ''/w/shared.ts''
            fresh_hosts)"
  by (simp add: request_at_def getScriptSnapshot_def fromString_def fresh_hosts_def
      new_host_def disk_with_def)

text \<open>
  C9. A request that returns no snapshot leaves the host untouched (nothing is cached
  for \<open>F\<close>, nor for any other file), and a later request on a disk where \<open>F\<close> exists and
  is readable reads the disk again and returns a fresh snapshot of the text found then.
\<close>

theorem getScriptSnapshot_absence_not_cached:
  assumes "getScriptSnapshot fs1 F h = (None, h1)"
  shows "h1 = h \<and> scriptSnapshots h1 F = None
    \<and> (fileExists fs2 F \<and> readFile fs2 F = Some content \<longrightarrow>
         fst (getScriptSnapshot fs2 F h1)
           = Some \<lparr>snapshot_ref = next_ref h, snapshot_text = content\<rparr>)"
  using assms
  by (auto simp: getScriptSnapshot_def fromString_def split: option.splits if_splits)

theorem getScriptSnapshot_absence_not_cached_witness:
  "getScriptSnapshot empty_disk ''a.ts'' new_host = (None, new_host)
   \<and> scriptSnapshots new_host ''a.ts'' = None
   \<and> fileExists (disk_with ''a.ts'' ''let x = 1'') ''a.ts''
   \<and> readFile (disk_with ''a.ts'' ''let x = 1'') ''a.ts'' = Some ''let x = 1''
   \<and> fst (getScriptSnapshot (disk_with ''a.ts'' ''let x = 1'') ''a.ts'' new_host)
       = Some \<lparr>snapshot_ref = 0, snapshot_text = ''let x = 1''\<rparr>"
proof -
  have none: "getScriptSnapshot empty_disk ''a.ts'' new_host = (None, new_host)"
    by (simp add: getScriptSnapshot_def empty_disk_def new_host_def)
  have ex: "fileExists (disk_with ''a.ts'' ''let x = 1'') ''a.ts''
      \<and> readFile (disk_with ''a.ts'' ''let x = 1'') ''a.ts'' = Some ''let x = 1''"
    by (simp add: disk_with_def)
  from getScriptSnapshot_absence_not_cached [OF none,
      of "disk_with ''a.ts'' ''let x = 1''" "''let x = 1''"] none ex
  show ?thesis by (simp add: new_host_def)
qed

section \<open>Properties of the emitter\<close>

lemma digits_chars: "set (digits n) \<subseteq> set ''0123456789''"
proof (induction n rule: digits.induct)
  case (1 n)
  have m: "''0123456789'' ! (n mod 10) \<in> set ''0123456789''"
    by (rule nth_mem) simp
  show ?case
  proof (cases "n < 10")
    case True
    then have "''0123456789'' ! n \<in> set ''0123456789''"
      by (intro nth_mem) simp
    with True show ?thesis by (subst digits.simps) simp
  next
    case False
    with 1 m show ?thesis by (subst digits.simps) simp
  qed
qed

lemma Number_toString_no_LF: "LF \<notin> set (Number_toString i)"
proof -
  have "LF \<notin> set (digits n)" for n
    using digits_chars [of n] by (auto simp: LF_def)
  then show ?thesis by (simp add: Number_toString_def LF_def)
qed

lemma hex_no_LF: "n < 16 \<Longrightarrow> hex n \<noteq> LF"
proof -
  assume "n < 16"
  then have "hex n \<in> set ''0123456789abcdef''"
    unfolding hex_def by (intro nth_mem) simp
  then show ?thesis by (auto simp: LF_def)
qed

lemma escape_no_LF: "LF \<notin> set (escape c)"
proof -
  have a: "(of_char c :: nat) < 32 \<Longrightarrow> hex (of_char c div 16) \<noteq> LF"
    by (rule hex_no_LF) simp
  have b: "hex (of_char c mod 16) \<noteq> LF"
    by (rule hex_no_LF) simp
  show ?thesis using a b by (auto simp: escape_def LF_def)
qed

lemma Quote_no_LF: "LF \<notin> set (QuoteJSONString s)"
  using escape_no_LF by (auto simp: QuoteJSONString_def LF_def)

lemma join_no_LF:
  "LF \<notin> set sep \<Longrightarrow> (\<forall>x \<in> set xs. LF \<notin> set x) \<Longrightarrow> LF \<notin> set (join sep xs)"
  by (induction sep xs rule: join.induct) auto

lemma Serialize_compact_no_LF: "LF \<notin> set (SerializeJSONProperty [] indent v)"
proof (induction "[] :: string" indent v rule: SerializeJSONProperty.induct)
  case (1 indent)
  then show ?case by (simp add: LF_def)
next
  case (2 indent b)
  then show ?case by (simp add: LF_def)
next
  case (3 indent n)
  then show ?case by (simp add: Number_toString_no_LF)
next
  case (4 indent s)
  then show ?case by (simp add: Quote_no_LF)
next
  case (5 indent xs)
  have "LF \<notin> set (join '','' (map (SerializeJSONProperty [] indent) xs))"
    using 5 by (intro join_no_LF) (auto simp: LF_def)
  then show ?case by (simp add: LF_def Let_def)
next
  case (6 indent ps)
  have "LF \<notin> set (join '','' (map (\<lambda>(P, v). QuoteJSONString P @ '':'' @ SerializeJSONProperty [] indent v) ps))"
    using 6 Quote_no_LF by (intro join_no_LF) (auto simp: LF_def)
  then show ?case by (simp add: LF_def Let_def)
qed

lemma JSON_stringify_one_line: "LF \<notin> set (JSON_stringify element 0)"
  by (simp add: JSON_stringify_def Serialize_compact_no_LF)

lemma lines_from_line:
  "LF \<notin> set l \<Longrightarrow> lines_from cur (l @ LF # rest) = (rev cur @ l) # lines_from [] rest"
  by (induction l arbitrary: cur) auto

lemma emit_FileWriter:
  "emit (create FileWriter) element written = written @ JSON_stringify element 0 @ [LF]"
  by (simp add: create_def FileWriter_def)

lemma emit_all_FileWriter:
  "emit_all (create FileWriter) elements written
     = written @ concat (map (\<lambda>element. JSON_stringify element 0 @ [LF]) elements)"
  by (induction elements arbitrary: written) (simp_all add: emit_FileWriter)

lemma lines_of_records:
  "lines_of (concat (map (\<lambda>element. JSON_stringify element 0 @ [LF]) elements))
     = map (\<lambda>element. JSON_stringify element 0) elements"
proof (induction elements)
  case Nil
  then show ?case by (simp add: lines_of_def)
next
  case (Cons e es)
  have "lines_from [] (JSON_stringify e 0 @ LF # concat (map (\<lambda>element. JSON_stringify element 0 @ [LF]) es))
      = JSON_stringify e 0 # lines_from [] (concat (map (\<lambda>element. JSON_stringify element 0 @ [LF]) es))"
    using lines_from_line [OF JSON_stringify_one_line, of "[]" e] by simp
  with Cons show ?case by (simp add: lines_of_def)
qed

text \<open>
  C4. A call of \<^verbatim>\<open>emit\<close> is one call of the writer's \<^verbatim>\<open>writeln\<close>, with the element's
  serialization for \<open>space = 0\<close>. With the file writer it appends exactly that
  serialization followed by one line feed; the serialization holds no line feed, so the
  call adds exactly one line. A sequence of calls appends their records in the order of
  the calls, and the lines of a file written from empty are the serializations of the
  elements, one per call, in call order.
\<close>

theorem emit_one_line_in_order:
  "emit (create writer) element w = writeln writer (JSON_stringify element 0) w
   \<and> emit (create FileWriter) element written = written @ JSON_stringify element 0 @ [LF]
   \<and> LF \<notin> set (JSON_stringify element 0)
   \<and> emit_all (create FileWriter) elements written
       = written @ concat (map (\<lambda>element. JSON_stringify element 0 @ [LF]) elements)
   \<and> lines_of (emit_all (create FileWriter) elements [])
       = map (\<lambda>element. JSON_stringify element 0) elements"
proof -
  have "emit (create writer) element w = writeln writer (JSON_stringify element 0) w"
    by (simp add: create_def)
  then show ?thesis
    using emit_FileWriter emit_all_FileWriter [of elements "[]"] lines_of_records
      JSON_stringify_one_line emit_all_FileWriter by simp
qed

section \<open>Properties of the orchestrator\<close>

subsection \<open>The example, evaluated\<close>

text \<open>
  The root project of the example from the world of line 272, and the whole run: the
  value returned, the log of identifiers, the \<open>dependsOn\<close> of every call of the visitor,
  the commands run, the options every visitor was handed, and the options at the end.
\<close>

lemma demo_processProject:
  "map_option (\<lambda>(r, s). (r, drawn s, map dependsOn (visits s), commands s,
                           map visitorOptions (visits s), opts s))
     (processProject 3 demo_env (create FileWriter) [] (demo_project ''/w'') demo_world)
     = Some (Return (Some (ProjectInfo 3 (Some ''/w/tsconfig.json'')
                             [ProjectInfo 1 None [], ProjectInfo 2 None []])),
             [(Project [0], 1), (Project [3], 2), (Project [], 3)],
             [[], [], [ProjectInfo 1 None [], ProjectInfo 2 None []]],
             [''git rev-parse --show-toplevel''],
             [demo_options\<lparr>projectRoot := Some ''/w'', repositoryRoot := Some ''/w''\<rparr>,
              demo_options\<lparr>projectRoot := Some ''/w'', repositoryRoot := Some ''/w''\<rparr>,
              demo_options\<lparr>projectRoot := Some ''/w'', repositoryRoot := Some ''/w''\<rparr>],
             demo_options\<lparr>projectRoot := Some ''/w'', repositoryRoot := Some ''/w''\<rparr>)"
  by code_simp

lemma demo_run:
  "map_option (\<lambda>(r, s). (r, drawn s, map dependsOn (visits s), commands s,
                           map visitorOptions (visits s), opts s))
     (run 3 demo_env demo_disk)
     = Some (Return (),
             [(Project [0], 1), (Project [3], 2), (Project [], 3)],
             [[], [], [ProjectInfo 1 None [], ProjectInfo 2 None []]],
             [''git rev-parse --show-toplevel''],
             [demo_options\<lparr>projectRoot := Some ''/w'', repositoryRoot := Some ''/w''\<rparr>,
              demo_options\<lparr>projectRoot := Some ''/w'', repositoryRoot := Some ''/w''\<rparr>,
              demo_options\<lparr>projectRoot := Some ''/w'', repositoryRoot := Some ''/w''\<rparr>],
             demo_options\<lparr>projectRoot := Some ''/w'', repositoryRoot := Some ''/w''\<rparr>)"
  by code_simp

lemma demo_prepare:
  "fst (prepare demo_env (demo_project ''/w'') demo_world)
     = Next (Some ''/w/tsconfig.json'',
             \<lparr>getResolvedProjectReferences =
                Some [demo_reference ''lib'', demo_reference ''gone'', demo_reference ''lost'',
                      demo_reference ''util'']\<rparr>)"
  by code_simp

lemma demo_analyses:
  "map_option fst
     (analyses 2 demo_env (create FileWriter) [] 0
        [demo_reference ''lib'', demo_reference ''gone'', demo_reference ''lost'',
         demo_reference ''util'']
        (snd (prepare demo_env (demo_project ''/w'') demo_world)))
     = Some (Return [Some (ProjectInfo 1 None []), None, Some (ProjectInfo 2 None [])])"
  by code_simp

lemma demo_idempotent:
  "\<forall>p. makeAbsolute demo_env (makeAbsolute demo_env p) = makeAbsolute demo_env p"
  by (auto simp: demo_env_def demo_resolve_def split: list.splits)

subsection \<open>The identifier generator\<close>

lemma draws_from: "fst (draws n c) = [c..<c + n] \<and> snd (draws n c) = c + n"
proof (induction n arbitrary: c)
  case 0
  then show ?case by simp
next
  case (Suc n)
  have "[c..<c + Suc n] = c # [Suc c..<Suc c + n]"
    by (simp add: upt_rec)
  with Suc [of "Suc c"] show ?case
    by (simp add: idGenerator_def split_beta)
qed

subsection \<open>Loading a configuration file\<close>

lemma map_of_set_property: "map_of (set_property k v ps) = (map_of ps)(k \<mapsto> v)"
  by (induction ps) auto

lemma map_of_assign_properties:
  "map_of (assign_properties target source) k
     = (case map_of (rev source) k of Some v \<Rightarrow> Some v | None \<Rightarrow> map_of target k)"
proof (induction source arbitrary: target)
  case Nil
  then show ?case by simp
next
  case (Cons p source)
  obtain k' v' where p: "p = (k', v')" by (cases p)
  show ?case
    by (simp add: p Cons.IH map_of_set_property map_add_def split: option.splits)
qed

text \<open>
  C3 (as the code has it). With the configuration object \<open>config\<close> read from the file:
  when it has a \<^verbatim>\<open>compilerOptions\<close> object \<open>ps\<close>, the parser is handed \<open>ps\<close> with the
  forced defaults assigned over it, so every forced option carries its forced value
  whatever the author wrote and the author's other options are kept; when it has no
  \<^verbatim>\<open>compilerOptions\<close> member, the parser is handed the configuration as read, with no
  \<^verbatim>\<open>compilerOptions\<close> member and so without the forced defaults.
\<close>

theorem loadConfigFile_defaults:
  assumes "readConfigFile env fs (path_resolve env name) = Inr config"
  shows "(compilerOptions config = Object ps \<longrightarrow>
            loadConfigFile env fs name
              = parseConfig env fs (path_resolve env name)
                  (config\<lparr>compilerOptions :=
                     Object (assign_properties ps (getDefaultCompilerOptions env name))\<rparr>)
          \<and> (\<forall>k v. map_of (rev (getDefaultCompilerOptions env name)) k = Some v \<longrightarrow>
                 map_of (assign_properties ps (getDefaultCompilerOptions env name)) k = Some v)
          \<and> (\<forall>k. k \<notin> fst ` set (getDefaultCompilerOptions env name) \<longrightarrow>
                 map_of (assign_properties ps (getDefaultCompilerOptions env name)) k = map_of ps k))
       \<and> (compilerOptions config = Undefined \<longrightarrow>
            loadConfigFile env fs name = parseConfig env fs (path_resolve env name) config)"
proof -
  have absent: "map_of (rev (getDefaultCompilerOptions env name)) k = None"
    if "k \<notin> fst ` set (getDefaultCompilerOptions env name)" for k
    using that by (simp add: map_of_eq_None_iff)
  show ?thesis
    using assms
    by (auto simp: loadConfigFile_def applyDefaults_def Object_assign_def Let_def
        map_of_assign_properties absent)
qed

theorem loadConfigFile_defaults_witness:
  "readConfigFile demo_env demo_disk (path_resolve demo_env ''/w/tsconfig.json'')
     = Inr \<lparr>compilerOptions = Object [(''strict'', JBool True), (''allowJs'', JBool False)],
            members = [(''files'', JArray [JString ''a.ts'']),
                       (''references'', JArray [JString ''lib'', JString ''gone'',
                                                JString ''lost'', JString ''util''])]\<rparr>
   \<and> loadConfigFile demo_env demo_disk ''/w/tsconfig.json''
       = Inr \<lparr>options = \<lparr>project = None, types = None,
                            settings = [(''strict'', JBool True), (''allowJs'', JBool True)]\<rparr>,
              fileNames = [''/w/a.ts''],
              projectReferences = Some [''lib'', ''gone'', ''lost'', ''util''],
              errors = []\<rparr>
   \<and> map_of (assign_properties [(''strict'', JBool True), (''allowJs'', JBool False)]
               (getDefaultCompilerOptions demo_env ''/w/tsconfig.json'')) ''allowJs''
       = Some (JBool True)
   \<and> map_of (assign_properties [(''strict'', JBool True), (''allowJs'', JBool False)]
               (getDefaultCompilerOptions demo_env ''/w/tsconfig.json'')) ''strict''
       = Some (JBool True)"
proof -
  have r: "readConfigFile demo_env demo_disk (path_resolve demo_env ''/w/tsconfig.json'')
     = Inr \<lparr>compilerOptions = Object [(''strict'', JBool True), (''allowJs'', JBool False)],
            members = [(''files'', JArray [JString ''a.ts'']),
                       (''references'', JArray [JString ''lib'', JString ''gone'',
                                                JString ''lost'', JString ''util''])]\<rparr>"
    by (simp add: demo_env_def demo_resolve_def)
  have d: "getDefaultCompilerOptions demo_env ''/w/tsconfig.json'' = [(''allowJs'', JBool True)]"
    by (simp add: demo_env_def)
  have p: "parseConfig demo_env demo_disk (path_resolve demo_env ''/w/tsconfig.json'')
             \<lparr>compilerOptions = Object [(''strict'', JBool True), (''allowJs'', JBool True)],
              members = [(''files'', JArray [JString ''a.ts'']),
                         (''references'', JArray [JString ''lib'', JString ''gone'',
                                                  JString ''lost'', JString ''util''])]\<rparr>
       = Inr \<lparr>options = \<lparr>project = None, types = None,
                            settings = [(''strict'', JBool True), (''allowJs'', JBool True)]\<rparr>,
              fileNames = [''/w/a.ts''],
              projectReferences = Some [''lib'', ''gone'', ''lost'', ''util''],
              errors = []\<rparr>"
    by (simp add: parseConfig_def demo_env_def demo_parse_def demo_resolve_def demo_dirname_def)
  from loadConfigFile_defaults [OF r, of "[(''strict'', JBool True), (''allowJs'', JBool False)]"]
  show ?thesis using r d p by simp
qed

text \<open>
  The claim as written fails: \<^verbatim>\<open>/w/lib/tsconfig.json\<close> declares no \<^verbatim>\<open>compilerOptions\<close>,
  the forced defaults set \<^verbatim>\<open>allowJs\<close>, and the configuration that results does not carry it.
\<close>

theorem loadConfigFile_defaults_counterexample:
  "getDefaultCompilerOptions demo_env ''/w/lib/tsconfig.json'' = [(''allowJs'', JBool True)]
   \<and> readConfigFile demo_env demo_disk (path_resolve demo_env ''/w/lib/tsconfig.json'')
       = Inr \<lparr>compilerOptions = Undefined, members = [(''files'', JArray [JString ''b.ts''])]\<rparr>
   \<and> applyDefaults demo_env ''/w/lib/tsconfig.json''
         \<lparr>compilerOptions = Undefined, members = [(''files'', JArray [JString ''b.ts''])]\<rparr>
       = Inr \<lparr>compilerOptions = Undefined, members = [(''files'', JArray [JString ''b.ts''])]\<rparr>
   \<and> loadConfigFile demo_env demo_disk ''/w/lib/tsconfig.json''
       = Inr \<lparr>options = \<lparr>project = None, types = None, settings = []\<rparr>,
              fileNames = [''/w/lib/b.ts''], projectReferences = None, errors = []\<rparr>
   \<and> map_of (settings (options (projr (loadConfigFile demo_env demo_disk ''/w/lib/tsconfig.json''))))
         ''allowJs'' \<noteq> Some (JBool True)"
  by (simp add: loadConfigFile_def applyDefaults_def parseConfig_def demo_env_def
      demo_parse_def demo_resolve_def demo_dirname_def)

subsection \<open>The steps before the references\<close>

lemma bind_Next: "m s = (Next a, s1) \<Longrightarrow> bind m f s = f a s1"
  by (simp add: bind_def)

lemma bind_Stop: "m s = (Stop r, s1) \<Longrightarrow> bind m f s = (Stop r, s1)"
  by (simp add: bind_def)

lemma resolveConfig_Next:
  "resolveConfig env config s = (Next a, s1) \<Longrightarrow> s1 = s"
  by (auto simp: resolveConfig_def Let_def split: option.splits if_splits sum.splits)

lemma prepare_no_input_files:
  assumes "resolveConfig env config s = (Next (tsconfigFileName, config'), s1)"
    and "fileNames config' = []"
  shows "prepare env config s
           = (Stop (Return None),
              s\<lparr>stderr := stderr s @ [''No input files specified.''], exitCode := Some 1\<rparr>)"
proof -
  from assms(1) have s1: "s1 = s" by (rule resolveConfig_Next)
  have "checkInputFiles config' s
          = (Stop (Return None),
             s\<lparr>stderr := stderr s @ [''No input files specified.''], exitCode := Some 1\<rparr>)"
    using assms(2) by (simp add: checkInputFiles_def console_error_def)
  then show ?thesis
    using assms(1) s1 by (simp add: prepare_def bind_Next bind_Stop)
qed

lemma prepare_missing_config:
  assumes "resolveConfig env config s = (Stop r, s1)"
  shows "prepare env config s = (Stop r, s1)"
  using assms by (simp add: prepare_def bind_Stop)

text \<open>
  C6. A configuration that names a project path \<open>p\<close> (a non-empty string) is resolved
  to \<^verbatim>\<open>tsconfig.json\<close> inside the resolved path when that is a directory, and to the
  resolved path itself otherwise. When no such file exists, the call returns
  \<^verbatim>\<open>undefined\<close>; the only changes to the world are the message on the error stream and
  the exit code 1, so nothing is emitted, no identifier is drawn and no visitor runs.
  When the file exists, it is the file handed to \<open>loadConfigFile\<close>.
\<close>

theorem processProject_missing_config:
  assumes "project (options config) = Some p" and "p \<noteq> []"
  shows "(let projectPath = path_resolve env p;
              tsconfigFileName = (if directoryExists (disk s) projectPath
                                  then path_join env projectPath ''tsconfig.json''
                                  else projectPath)
          in (\<not> fileExists (disk s) tsconfigFileName \<longrightarrow>
                processProject (Suc fuel) env emitter path config s
                  = Some (Return None,
                          s\<lparr>stderr := stderr s @ [''Project configuration file '' @ tsconfigFileName
                                                    @ '' does not exist''],
                            exitCode := Some 1\<rparr>))
           \<and> (fileExists (disk s) tsconfigFileName \<longrightarrow>
                resolveConfig env config s
                  = (case loadConfigFile env (disk s) tsconfigFileName of
                       Inl e \<Rightarrow> (Stop (Throw e), s)
                     | Inr config' \<Rightarrow> (Next (Some tsconfigFileName, config'), s))))"
proof -
  define t where "t = (if directoryExists (disk s) (path_resolve env p)
                       then path_join env (path_resolve env p) ''tsconfig.json''
                       else path_resolve env p)"
  have gone: "processProject (Suc fuel) env emitter path config s
                = Some (Return None,
                        s\<lparr>stderr := stderr s @ [''Project configuration file '' @ t
                                                  @ '' does not exist''],
                          exitCode := Some 1\<rparr>)"
    if "\<not> fileExists (disk s) t"
  proof -
    have "resolveConfig env config s
            = (Stop (Return None),
               s\<lparr>stderr := stderr s @ [''Project configuration file '' @ t @ '' does not exist''],
                 exitCode := Some 1\<rparr>)"
      using assms that unfolding t_def by (simp add: resolveConfig_def console_error_def Let_def)
    then have "prepare env config s
            = (Stop (Return None),
               s\<lparr>stderr := stderr s @ [''Project configuration file '' @ t @ '' does not exist''],
                 exitCode := Some 1\<rparr>)"
      by (rule prepare_missing_config)
    then show ?thesis by simp
  qed
  have found: "resolveConfig env config s
                 = (case loadConfigFile env (disk s) t of
                      Inl e \<Rightarrow> (Stop (Throw e), s)
                    | Inr config' \<Rightarrow> (Next (Some t, config'), s))"
    if "fileExists (disk s) t"
    using assms that unfolding t_def by (simp add: resolveConfig_def Let_def)
  from gone found show ?thesis
    unfolding Let_def t_def by blast
qed

text \<open>
  C7. When the configuration that results from the first step has no input files, the
  call returns \<^verbatim>\<open>undefined\<close>; the only changes to the world are the message on the error
  stream and the exit code 1, so nothing is emitted, no identifier is drawn and no
  visitor runs.
\<close>

theorem processProject_no_input_files:
  assumes "resolveConfig env config s = (Next (tsconfigFileName, config'), s1)"
    and "fileNames config' = []"
  shows "processProject (Suc fuel) env emitter path config s
           = Some (Return None,
                   s\<lparr>stderr := stderr s @ [''No input files specified.''], exitCode := Some 1\<rparr>)"
  using prepare_no_input_files [OF assms] by simp

theorem processProject_missing_config_witness:
  "project (options (demo_project ''/w/nowhere'')) = Some ''/w/nowhere''
   \<and> \<not> fileExists (disk (startup demo_env demo_disk)) ''/w/nowhere''
   \<and> processProject 1 demo_env (create FileWriter) [] (demo_project ''/w/nowhere'')
         (startup demo_env demo_disk)
       = Some (Return None,
               (startup demo_env demo_disk)
                 \<lparr>stderr := [''Project configuration file /w/nowhere does not exist''],
                  exitCode := Some 1\<rparr>)
   \<and> project (options (demo_project ''/w'')) = Some ''/w''
   \<and> fileExists (disk (startup demo_env demo_disk)) ''/w/tsconfig.json''
   \<and> resolveConfig demo_env (demo_project ''/w'') (startup demo_env demo_disk)
       = (Next (Some ''/w/tsconfig.json'',
                \<lparr>options = \<lparr>project = None, types = None,
                              settings = [(''strict'', JBool True), (''allowJs'', JBool True)]\<rparr>,
                 fileNames = [''/w/a.ts''],
                 projectReferences = Some [''lib'', ''gone'', ''lost'', ''util''],
                 errors = []\<rparr>),
          startup demo_env demo_disk)"
proof -
  have p1: "project (options (demo_project ''/w/nowhere'')) = Some ''/w/nowhere''"
    and p2: "project (options (demo_project ''/w'')) = Some ''/w''"
    by (simp_all add: demo_project_def)
  have fs: "path_resolve demo_env ''/w/nowhere'' = ''/w/nowhere''"
    "path_resolve demo_env ''/w'' = ''/w''"
    "path_join demo_env ''/w'' ''tsconfig.json'' = ''/w/tsconfig.json''"
    "\<not> directoryExists (disk (startup demo_env demo_disk)) ''/w/nowhere''"
    "directoryExists (disk (startup demo_env demo_disk)) ''/w''"
    "\<not> fileExists (disk (startup demo_env demo_disk)) ''/w/nowhere''"
    "fileExists (disk (startup demo_env demo_disk)) ''/w/tsconfig.json''"
    "stderr (startup demo_env demo_disk) = []"
    by (simp_all add: demo_env_def demo_resolve_def startup_def demo_disk_def)
  have l: "loadConfigFile demo_env (disk (startup demo_env demo_disk)) ''/w/tsconfig.json''
       = Inr \<lparr>options = \<lparr>project = None, types = None,
                            settings = [(''strict'', JBool True), (''allowJs'', JBool True)]\<rparr>,
              fileNames = [''/w/a.ts''],
              projectReferences = Some [''lib'', ''gone'', ''lost'', ''util''],
              errors = []\<rparr>"
    by (simp add: loadConfigFile_def applyDefaults_def parseConfig_def Object_assign_def
        demo_env_def demo_parse_def demo_resolve_def demo_dirname_def startup_def)
  have "[] \<noteq> ''/w/nowhere''" "[] \<noteq> ''/w''" by simp_all
  with processProject_missing_config [OF p1, of demo_env "startup demo_env demo_disk" 0
      "create FileWriter" "[]"]
    processProject_missing_config [OF p2, of demo_env "startup demo_env demo_disk" 0
      "create FileWriter" "[]"]
  show ?thesis
    using p1 p2 fs l by (simp add: Let_def)
qed

theorem processProject_no_input_files_witness:
  "resolveConfig demo_env (demo_commandLine [] None) (startup demo_env demo_disk)
     = (Next (None, demo_commandLine [] None), startup demo_env demo_disk)
   \<and> fileNames (demo_commandLine [] None) = []
   \<and> processProject 1 demo_env (create FileWriter) [] (demo_commandLine [] None)
         (startup demo_env demo_disk)
       = Some (Return None,
               (startup demo_env demo_disk)
                 \<lparr>stderr := [''No input files specified.''], exitCode := Some 1\<rparr>)"
proof -
  have r: "resolveConfig demo_env (demo_commandLine [] None) (startup demo_env demo_disk)
     = (Next (None, demo_commandLine [] None), startup demo_env demo_disk)"
    by (simp add: resolveConfig_def demo_commandLine_def)
  have f: "fileNames (demo_commandLine [] None) = []"
    by (simp add: demo_commandLine_def)
  have e: "stderr (startup demo_env demo_disk) = []"
    by (simp add: startup_def)
  from processProject_no_input_files [OF r f, of 0 "create FileWriter" "[]"]
  show ?thesis using r f e by simp
qed

subsection \<open>What a whole call preserves\<close>

text \<open>
  A relation between the world before and after that is reflexive, transitive and kept by
  the steps before the references and by the visitor is kept by a whole call and by the
  loop over the references.
\<close>

lemma processProject_preserves:
  assumes refl: "\<And>s. R s s"
    and trans: "\<And>s s1 s2. R s s1 \<Longrightarrow> R s1 s2 \<Longrightarrow> R s s2"
    and prep: "\<And>config s r s1. prepare env config s = (r, s1) \<Longrightarrow> R s s1"
    and vis: "\<And>path program deps t s r s1.
                visit env emitter path program deps t s = (r, s1) \<Longrightarrow> R s s1"
  shows "processProject fuel env emitter path config s = Some (r, s') \<Longrightarrow> R s s'"
    and "processReferences fuel env emitter path i rs deps s = Some (r', s') \<Longrightarrow> R s s'"
  using refl trans prep vis
proof (induction fuel env emitter path config s and fuel env emitter path i rs deps s
    arbitrary: r s' and r' s' rule: processProject_processReferences.induct)
  case (1 env emitter path config s)
  then show ?case by simp
next
  case (2 fuel env emitter path config s)
  note eq = "2.prems"(1) and rfl = "2.prems"(2) and trn = "2.prems"(3)
    and prep = "2.prems"(4) and vis = "2.prems"(5)
  obtain f s1 where p: "prepare env config s = (f, s1)" by (cases "prepare env config s")
  from p have a: "R s s1" by (rule prep)
  show ?case
  proof (cases f)
    case (Stop r0)
    with p eq a show ?thesis by simp
  next
    case (Next x)
    obtain t program where x: "x = (t, program)" by (cases x)
    let ?rs = "case getResolvedProjectReferences program of None \<Rightarrow> [] | Some rs \<Rightarrow> rs"
    from eq p Next x obtain o2 s2 where
      l: "processReferences fuel env emitter path 0 ?rs [] s1 = Some (o2, s2)"
      by (auto split: option.splits)
    have b: "R s1 s2"
      by (rule "2.IH" [OF p [symmetric] Next x [symmetric] l rfl trn prep vis])
    show ?thesis
    proof (cases o2)
      case (Throw e)
      with eq p Next x l have "s' = s2" by simp
      with a b show ?thesis using trn by blast
    next
      case (Return ds)
      with eq p Next x l
      have "visit env emitter path program ds t s2 = (r, s')" by simp
      then have "R s2 s'" by (rule vis)
      with a b show ?thesis using trn by blast
    qed
  qed
next
  case (3 fuel env emitter path i deps s)
  then show ?case by simp
next
  case (4 fuel env emitter path i rs deps s)
  then show ?case by simp
next
  case (5 fuel env emitter path i reference rs deps s)
  note eq = "5.prems"(1) and rfl = "5.prems"(2) and trn = "5.prems"(3)
    and prep = "5.prems"(4) and vis = "5.prems"(5)
  from eq obtain o1 s1 where
    c: "processProject fuel env emitter (path @ [i]) (commandLine reference) s = Some (o1, s1)"
    by (auto split: option.splits)
  have a: "R s s1"
    by (rule "5.IH"(1) [OF c rfl trn prep vis])
  show ?case
  proof (cases o1)
    case (Throw e)
    with eq c have "s' = s1" by simp
    with a show ?thesis by simp
  next
    case (Return info)
    with eq c
    have l: "processReferences fuel env emitter path (Suc i) rs
               (case info of None \<Rightarrow> deps | Some x \<Rightarrow> deps @ [x]) s1 = Some (r', s')"
      by simp
    have "R s1 s'"
      by (rule "5.IH"(2) [OF c HOL.refl Return l rfl trn prep vis])
    with a show ?thesis using trn by blast
  qed
qed

subsection \<open>What the steps before the references leave alone\<close>

lemma untouched_refl: "untouched s s"
  by (simp add: untouched_def)

lemma untouched_trans: "untouched s s1 \<Longrightarrow> untouched s1 s2 \<Longrightarrow> untouched s s2"
  by (simp add: untouched_def)

lemma bind_untouched:
  assumes "bind m f s = (r, s')"
    and "\<And>r s1. m s = (r, s1) \<Longrightarrow> untouched s s1"
    and "\<And>a s1 r s2. f a s1 = (r, s2) \<Longrightarrow> untouched s1 s2"
  shows "untouched s s'"
proof -
  obtain x s1 where m: "m s = (x, s1)" by (cases "m s")
  then have a: "untouched s s1" by (rule assms(2))
  show ?thesis
  proof (cases x)
    case (Next v)
    with m assms(1) have "f v s1 = (r, s')" by (simp add: bind_def)
    then have "untouched s1 s'" by (rule assms(3))
    with a show ?thesis by (rule untouched_trans)
  next
    case (Stop r0)
    with m assms(1) have "s' = s1" by (simp add: bind_def)
    with a show ?thesis by simp
  qed
qed

lemma resolveConfig_untouched: "resolveConfig env config s = (r, s1) \<Longrightarrow> untouched s s1"
  by (auto simp: resolveConfig_def untouched_def console_error_def Let_def
      split: option.splits if_splits sum.splits)

lemma checkInputFiles_untouched: "checkInputFiles config s = (r, s1) \<Longrightarrow> untouched s s1"
  by (auto simp: checkInputFiles_def untouched_def console_error_def split: if_splits)

lemma resolveRoots_untouched: "resolveRoots env s = (r, s1) \<Longrightarrow> untouched s s1"
  by (auto simp: resolveRoots_def untouched_def Let_def split: option.splits sum.splits)

lemma inferTypes_untouched: "inferTypes env t config root s = (r, s1) \<Longrightarrow> untouched s s1"
  by (auto simp: inferTypes_def untouched_def split: if_splits sum.splits)

lemma createProgram_untouched: "createProgram env t config s = (r, s1) \<Longrightarrow> untouched s s1"
  by (auto simp: createProgram_def untouched_def console_error_def split: option.splits)

lemma prepare_untouched:
  assumes "prepare env config s = (r, s1)"
  shows "untouched s s1"
  using assms unfolding prepare_def
  apply (rule bind_untouched)
   apply (erule resolveConfig_untouched)
  apply (simp only: split_paired_all prod.case)
  apply (erule bind_untouched)
   apply (erule checkInputFiles_untouched)
  apply (erule bind_untouched)
   apply (erule resolveRoots_untouched)
  apply (erule bind_untouched)
   apply (erule inferTypes_untouched)
  apply (erule bind_untouched)
   apply (erule createProgram_untouched)
  apply (simp add: untouched_def)
  done

subsection \<open>What a script does\<close>

lemma run_script_only: "run_script who emitter sc s = (r, s') \<Longrightarrow> script_only s s'"
proof (induction sc arbitrary: s)
  case (Done a)
  then show ?case by (auto simp: script_only_def)
next
  case (Draw k)
  from Draw.prems
  have "run_script who emitter (k (counter s))
          (s\<lparr>counter := counter s + 1, drawn := drawn s @ [(who, counter s)]\<rparr>) = (r, s')"
    by (simp add: idGenerator_def)
  from Draw.IH [OF _ this] show ?case by (simp add: script_only_def)
next
  case (Emit e k)
  from Emit.prems Emit.IH [of "s\<lparr>sink := emit emitter e (sink s)\<rparr>"]
  show ?case by (simp add: script_only_def)
next
  case (Raise e)
  then show ?case by (auto simp: script_only_def)
qed

text \<open>
  The identifiers a script draws are appended to the log in the order drawn, each under
  the name of the drawer, and they are the values the counter passes through.
\<close>

lemma run_script_drawn:
  "run_script who emitter sc s = (r, s') \<Longrightarrow>
     counter s \<le> counter s'
     \<and> drawn s' = drawn s @ map (Pair who) [counter s..<counter s']"
proof (induction sc arbitrary: s)
  case (Done a)
  then show ?case by auto
next
  case (Draw k)
  let ?s1 = "s\<lparr>counter := counter s + 1, drawn := drawn s @ [(who, counter s)]\<rparr>"
  from Draw.prems
  have "run_script who emitter (k (counter s)) ?s1 = (r, s')"
    by (simp add: idGenerator_def)
  from Draw.IH [OF _ this]
  have le: "Suc (counter s) \<le> counter s'"
    and d: "drawn s' = (drawn s @ [(who, counter s)]) @ map (Pair who) [Suc (counter s)..<counter s']"
    by simp_all
  from le have "[counter s..<counter s'] = counter s # [Suc (counter s)..<counter s']"
    by (simp add: upt_rec)
  with le d show ?case by simp
next
  case (Emit e k)
  from Emit.prems Emit.IH [of "s\<lparr>sink := emit emitter e (sink s)\<rparr>"]
  show ?case by simp
next
  case (Raise e)
  then show ?case by auto
qed

lemma visit_drawn:
  assumes "visit env emitter path program deps t s = (r, s')"
  shows "counter s \<le> counter s'
     \<and> drawn s' = drawn s @ map (Pair (Project path)) [counter s..<counter s']"
  using assms run_script_drawn [of "Project path" emitter _ "s\<lparr>visits := visits s @ [_]\<rparr>" r s']
  by (simp add: visit_def Let_def)

subsection \<open>The identifiers of a run\<close>

lemma numbered_step:
  assumes "numbered s" and "counter s \<le> counter s'"
    and "drawn s' = drawn s @ map (Pair who) [counter s..<counter s']"
  shows "numbered s'"
proof -
  have "map snd (map (Pair who) [counter s..<counter s']) = [counter s..<counter s']"
    by (simp add: comp_def)
  moreover have "[1..<counter s] @ [counter s..<counter s'] = [1..<counter s']"
  proof -
    from assms(2) obtain d where d: "counter s' = counter s + d"
      by (auto simp: le_iff_add)
    from assms(1) have "1 \<le> counter s" by (simp add: numbered_def)
    then show ?thesis unfolding d by (rule upt_add_eq_append [symmetric])
  qed
  ultimately show ?thesis
    using assms by (simp add: numbered_def)
qed

lemma processProject_numbered:
  assumes "processProject fuel env emitter path config s = Some (r, s')" and "numbered s"
  shows "numbered s'"
proof -
  have "numbered s \<longrightarrow> numbered s'"
  proof (rule processProject_preserves(1) [where R = "\<lambda>s s'. numbered s \<longrightarrow> numbered s'", OF _ _ _ _ assms(1)])
    show "numbered s \<longrightarrow> numbered s" for s by simp
    show "numbered s \<longrightarrow> numbered s2" if "numbered s \<longrightarrow> numbered s1" "numbered s1 \<longrightarrow> numbered s2"
      for s s1 s2 using that by simp
    show "numbered s \<longrightarrow> numbered s1" if "prepare env config s = (r, s1)" for config s r s1
      using prepare_untouched [OF that] by (simp add: untouched_def numbered_def)
    show "numbered s \<longrightarrow> numbered s1"
      if "visit env emitter path program deps t s = (r, s1)" for path program deps t s r s1
      using visit_drawn [OF that] numbered_step by blast
  qed
  with assms(2) show ?thesis by simp
qed

lemma run_script_numbered:
  assumes "run_script who emitter sc s = (r, s')" and "numbered s"
  shows "numbered s'"
  using run_script_drawn [OF assms(1)] assms(2) numbered_step by blast

lemma linkers_numbered:
  assumes "linkers env emitter root packageJson s = (r, s')" and "numbered s"
  shows "numbered s'"
proof -
  obtain o1 s1 where a: "run_script Setup emitter (newImportLinker env root) s = (o1, s1)"
    by (cases "run_script Setup emitter (newImportLinker env root) s")
  from a assms(2) have n1: "numbered s1" by (rule run_script_numbered)
  show ?thesis
  proof (cases o1)
    case (Throw e)
    with a assms(1) n1 show ?thesis by (simp add: linkers_def)
  next
    case (Return u)
    show ?thesis
    proof (cases packageJson)
      case None
      with a Return assms(1) n1 show ?thesis by (simp add: linkers_def)
    next
      case (Some manifest)
      with a Return assms(1)
      have "run_script Setup emitter (newExportLinker env root manifest) s1 = (r, s')"
        by (simp add: linkers_def)
      then show ?thesis using n1 by (rule run_script_numbered)
    qed
  qed
qed

lemma numbered_gapless:
  assumes "numbered s"
  shows "map snd (drawn s) = [1..<Suc (length (drawn s))]"
proof -
  from assms have c: "1 \<le> counter s" and m: "map snd (drawn s) = [1..<counter s]"
    by (simp_all add: numbered_def)
  from m have "length (drawn s) = counter s - 1"
    by (metis length_map length_upt)
  with c have "Suc (length (drawn s)) = counter s" by simp
  with m show ?thesis by simp
qed

lemma run_numbered:
  assumes "run fuel env d = Some (r, s')"
  shows "drawn s' = [] \<or> numbered s'"
proof -
  let ?s = "startup env d"
  have e: "drawn ?s = []" by (simp add: startup_def)
  show ?thesis
  proof (cases "version (opts ?s) \<or> help' (opts ?s)")
    case True
    with assms e show ?thesis
      by (auto simp: run_def Let_def console_log_def split: if_splits)
  next
    case False
    show ?thesis
    proof (cases "openSync env (disk ?s) (out (opts ?s))")
      case (Inl x)
      with False assms e show ?thesis by (simp add: run_def Let_def)
    next
      case (Inr d1)
      let ?s2 = "?s\<lparr>disk := d1, sink := [], counter := createIdGenerator (opts ?s)\<rparr>"
      have n2: "numbered ?s2"
        by (simp add: numbered_def createIdGenerator_def startup_def)
      let ?root = "case projectRoot (opts ?s) of
                     Some p \<Rightarrow> p
                   | None \<Rightarrow>
                       (let dir = path_posix_dirname env (makeAbsolute env ''package.json'')
                        in if \<not> path_isAbsolute env dir then makeAbsolute env dir else dir)"
      let ?pj = "PackageJson_read env (disk ?s) (makeAbsolute env ''package.json'')"
      obtain o3 s3 where l: "linkers env (create FileWriter) ?root ?pj ?s2 = (o3, s3)"
        by (cases "linkers env (create FileWriter) ?root ?pj ?s2")
      from l n2 have n3: "numbered s3" by (rule linkers_numbered)
      show ?thesis
      proof (cases o3)
        case (Throw e)
        with False Inr l assms have "s' = s3"
          by (simp add: run_def Let_def)
        with n3 show ?thesis by simp
      next
        case (Return u)
        with False Inr l assms obtain o4 where
          "processProject fuel env (create FileWriter) [] (parseCommandLine env (args env)) s3
             = Some (o4, s')"
          by (auto simp: run_def Let_def split: option.splits outcome.splits)
        then have "numbered s'" using n3 by (rule processProject_numbered)
        then show ?thesis by simp
      qed
    qed
  qed
qed

text \<open>
  C2. \<open>n\<close> successive calls of a freshly created generator return \<open>1, 2, \<dots>, n\<close>. In
  a run, the generator is created once (line 265) and every draw of the linkers'
  constructors, of every visitor and of every nested call goes through its one counter:
  the identifiers handed out during the whole run, in the order drawn, are
  \<open>1, 2, \<dots>\<close> up to their number. (Identifiers are JavaScript numbers; the model counts
  in \<open>nat\<close>, which is exact for them below \<open>2 ^ 53\<close>.)
\<close>

theorem idGenerator_sequence:
  "fst (draws n (createIdGenerator o0)) = [1..<Suc n]
   \<and> (run fuel env d = Some (r, s') \<longrightarrow> map snd (drawn s') = [1..<Suc (length (drawn s'))])"
proof -
  have "fst (draws n (createIdGenerator o0)) = [1..<Suc n]"
    using draws_from [of n 1] by (simp add: createIdGenerator_def)
  moreover have "map snd (drawn s') = [1..<Suc (length (drawn s'))]"
    if "run fuel env d = Some (r, s')"
  proof (cases "drawn s' = []")
    case True
    then show ?thesis by simp
  next
    case False
    with run_numbered [OF that] have "numbered s'" by simp
    then show ?thesis by (rule numbered_gapless)
  qed
  ultimately show ?thesis by simp
qed

theorem idGenerator_sequence_witness:
  "fst (draws 3 (createIdGenerator demo_options)) = [1, 2, 3]
   \<and> map_option (\<lambda>(r, s). (r, map snd (drawn s))) (run 3 demo_env demo_disk)
       = Some (Return (), [1, 2, 3])"
proof -
  from demo_run obtain s' where
    r: "run 3 demo_env demo_disk = Some (Return (), s')"
    and d: "drawn s' = [(Project [0], 1), (Project [3], 2), (Project [], 3)]"
    by (auto simp: map_option_case split: option.splits)
  have u: "[1..<Suc 3] = [1, 2, 3]" by (simp add: upt_rec)
  from idGenerator_sequence [of 3 demo_options 3 demo_env demo_disk "Return ()" s'] r d u
  show ?thesis by simp
qed

subsection \<open>Dependencies before the dependent\<close>

lemma siblings_unrelated:
  assumes "prefix (path @ [i]) p" and "prefix (path @ [j]) q" and "i \<noteq> j"
  shows "\<not> prefix q p"
proof
  assume "prefix q p"
  with assms(2) have "prefix (path @ [j]) p" by (rule prefix_order.trans)
  with assms(1) have "prefix (path @ [i]) (path @ [j]) \<or> prefix (path @ [j]) (path @ [i])"
    by (rule prefix_same_cases)
  with assms(3) show False by auto
qed

lemma dependency_first_Nil: "dependency_first []"
  by (simp add: dependency_first_def)

lemma dependency_first_append:
  assumes "dependency_first a" and "dependency_first b"
    and "\<And>x y p q. x \<in> set a \<Longrightarrow> y \<in> set b \<Longrightarrow> fst x = Project p \<Longrightarrow> fst y = Project q \<Longrightarrow>
           (strict_prefix q p \<longrightarrow> snd x < snd y) \<and> (strict_prefix p q \<longrightarrow> snd y < snd x)"
  shows "dependency_first (a @ b)"
  unfolding dependency_first_def
proof (intro ballI allI impI)
  fix x y p q
  assume x: "x \<in> set (a @ b)" and y: "y \<in> set (a @ b)"
    and h: "fst x = Project p \<and> fst y = Project q \<and> strict_prefix q p"
  consider "x \<in> set a" "y \<in> set a" | "x \<in> set b" "y \<in> set b"
    | "x \<in> set a" "y \<in> set b" | "x \<in> set b" "y \<in> set a"
    using x y by auto
  then show "snd x < snd y"
  proof cases
    case 1
    with assms(1) h show ?thesis unfolding dependency_first_def by blast
  next
    case 2
    with assms(2) h show ?thesis unfolding dependency_first_def by blast
  next
    case 3
    with assms(3) [of x y p q] h show ?thesis by blast
  next
    case 4
    with assms(3) [of y x q p] h show ?thesis by blast
  qed
qed

lemma under_mono:
  "under path c1 c2 entries \<Longrightarrow> c0 \<le> c1 \<Longrightarrow> c2 \<le> c3 \<Longrightarrow> under path c0 c3 entries"
  unfolding under_def by (meson le_trans less_le_trans)

lemma below_mono:
  "below path i c1 c2 entries \<Longrightarrow> c0 \<le> c1 \<Longrightarrow> c2 \<le> c3 \<Longrightarrow> below path i c0 c3 entries"
  unfolding below_def by (meson le_trans less_le_trans)

lemma below_Suc: "below path (Suc i) c c' entries \<Longrightarrow> below path i c c' entries"
  unfolding below_def by (meson Suc_leD)

lemma under_below: "under (path @ [i]) c c' entries \<Longrightarrow> below path i c c' entries"
  unfolding under_def below_def by blast

lemma below_under: "below path i c c' entries \<Longrightarrow> under path c c' entries"
  unfolding under_def below_def by (meson prefix_order.trans prefixI)

text \<open>The entries of one reference and those of the later references.\<close>

lemma dependency_first_siblings:
  assumes a: "under (path @ [i]) c0 c1 a" and b: "below path (Suc i) c1 c2 b"
    and da: "dependency_first a" and db: "dependency_first b"
  shows "dependency_first (a @ b)"
proof (rule dependency_first_append [OF da db])
  fix x y p q
  assume x: "x \<in> set a" and y: "y \<in> set b" and p: "fst x = Project p" and q: "fst y = Project q"
  from a x p have pp: "prefix (path @ [i]) p" unfolding under_def by auto
  from b y q obtain j where j: "Suc i \<le> j" and pq: "prefix (path @ [j]) q"
    unfolding below_def by auto
  from j have ne: "i \<noteq> j" "j \<noteq> i" by simp_all
  have "\<not> prefix q p" using pp pq ne(1) by (rule siblings_unrelated)
  moreover have "\<not> prefix p q" using pq pp ne(2) by (rule siblings_unrelated)
  ultimately show "(strict_prefix q p \<longrightarrow> snd x < snd y) \<and> (strict_prefix p q \<longrightarrow> snd y < snd x)"
    by (simp add: strict_prefix_def)
qed

text \<open>The entries of the references and those of the project's own visitor.\<close>

lemma dependency_first_own:
  assumes a: "below path 0 c0 c1 a" and da: "dependency_first a"
  shows "dependency_first (a @ map (Pair (Project path)) [c1..<c2])"
proof (rule dependency_first_append [OF da])
  show "dependency_first (map (Pair (Project path)) [c1..<c2])"
    unfolding dependency_first_def by auto
next
  fix x y p q
  assume x: "x \<in> set a" and y: "y \<in> set (map (Pair (Project path)) [c1..<c2])"
    and p: "fst x = Project p" and q: "fst y = Project q"
  from y q have qp: "q = path" and yc: "c1 \<le> snd y" by auto
  from a x p obtain j where pp: "prefix (path @ [j]) p" and xc: "snd x < c1"
    unfolding below_def by auto
  from pp have "length path < length p"
    by (auto simp: prefix_def)
  then have "\<not> strict_prefix p q"
    unfolding qp by (auto simp: strict_prefix_def prefix_def)
  with xc yc show "(strict_prefix q p \<longrightarrow> snd x < snd y) \<and> (strict_prefix p q \<longrightarrow> snd y < snd x)"
    by simp
qed

lemma references_log_refl: "references_log path i s s"
  unfolding references_log_def below_def using dependency_first_Nil by auto

lemma references_log_skip: "references_log path (Suc i) s s' \<Longrightarrow> references_log path i s s'"
  unfolding references_log_def using below_Suc by blast

lemma references_log_throw: "project_log (path @ [i]) s s1 \<Longrightarrow> references_log path i s s1"
  unfolding references_log_def project_log_def using under_below by blast

lemma references_log_step:
  assumes "project_log (path @ [i]) s s1" and "references_log path (Suc i) s1 s'"
  shows "references_log path i s s'"
proof -
  from assms(1) obtain a where c1: "counter s \<le> counter s1" and a: "drawn s1 = drawn s @ a"
    and ua: "under (path @ [i]) (counter s) (counter s1) a" and da: "dependency_first a"
    unfolding project_log_def by blast
  from assms(2) obtain b where c2: "counter s1 \<le> counter s'" and b: "drawn s' = drawn s1 @ b"
    and ub: "below path (Suc i) (counter s1) (counter s') b" and db: "dependency_first b"
    unfolding references_log_def by blast
  have "under (path @ [i]) (counter s) (counter s') a"
    by (rule under_mono [OF ua]) (simp_all add: c2)
  then have "below path i (counter s) (counter s') a"
    by (rule under_below)
  moreover have "below path (Suc i) (counter s) (counter s') b"
    by (rule below_mono [OF ub]) (simp_all add: c1)
  then have "below path i (counter s) (counter s') b"
    by (rule below_Suc)
  ultimately have "below path i (counter s) (counter s') (a @ b)"
    unfolding below_def by auto
  moreover have "dependency_first (a @ b)"
    using ua ub da db by (rule dependency_first_siblings)
  moreover have "drawn s' = drawn s @ (a @ b)" using a b by simp
  ultimately show ?thesis
    unfolding references_log_def using c1 c2 by (meson le_trans)
qed

lemma project_log_stop: "untouched s s1 \<Longrightarrow> project_log path s s1"
  unfolding project_log_def untouched_def under_def using dependency_first_Nil by auto

lemma project_log_references:
  assumes "untouched s s1" and "references_log path 0 s1 s2"
  shows "project_log path s s2"
  using assms unfolding project_log_def references_log_def untouched_def
  using below_under by fastforce

lemma project_log_visit:
  assumes u: "untouched s s1" and l: "references_log path 0 s1 s2"
    and c: "counter s2 \<le> counter s'"
    and d: "drawn s' = drawn s2 @ map (Pair (Project path)) [counter s2..<counter s']"
  shows "project_log path s s'"
proof -
  from u have cs: "counter s1 = counter s" and ds: "drawn s1 = drawn s"
    by (simp_all add: untouched_def)
  from l obtain a where c1: "counter s1 \<le> counter s2" and a: "drawn s2 = drawn s1 @ a"
    and ba: "below path 0 (counter s1) (counter s2) a" and da: "dependency_first a"
    unfolding references_log_def by blast
  let ?own = "map (Pair (Project path)) [counter s2..<counter s']"
  have "below path 0 (counter s) (counter s') a"
    by (rule below_mono [OF ba]) (simp_all add: c cs)
  then have "under path (counter s) (counter s') a"
    by (rule below_under)
  moreover have "under path (counter s) (counter s') ?own"
    using c1 cs unfolding under_def by auto
  ultimately have "under path (counter s) (counter s') (a @ ?own)"
    unfolding under_def by auto
  moreover have "dependency_first (a @ ?own)"
    using ba da by (rule dependency_first_own)
  moreover have "drawn s' = drawn s @ (a @ ?own)" using a d ds by simp
  moreover have "counter s \<le> counter s'" using c1 c cs by simp
  ultimately show ?thesis unfolding project_log_def by blast
qed

lemma processProject_log:
  shows "processProject fuel env emitter path config s = Some (r, s') \<Longrightarrow> project_log path s s'"
    and "processReferences fuel env emitter path i rs deps s = Some (r', s')
           \<Longrightarrow> references_log path i s s'"
proof (induction fuel env emitter path config s and fuel env emitter path i rs deps s
    arbitrary: r s' and r' s' rule: processProject_processReferences.induct)
  case (1 env emitter path config s)
  then show ?case by simp
next
  case (2 fuel env emitter path config s)
  obtain f s1 where p: "prepare env config s = (f, s1)" by (cases "prepare env config s")
  from p have u: "untouched s s1" by (rule prepare_untouched)
  show ?case
  proof (cases f)
    case (Stop r0)
    with p "2.prems" have "s' = s1" by simp
    with u show ?thesis by (simp add: project_log_stop)
  next
    case (Next x)
    obtain t program where x: "x = (t, program)" by (cases x)
    let ?rs = "case getResolvedProjectReferences program of None \<Rightarrow> [] | Some rs \<Rightarrow> rs"
    from "2.prems" p Next x obtain o2 s2 where
      l: "processReferences fuel env emitter path 0 ?rs [] s1 = Some (o2, s2)"
      by (auto split: option.splits)
    have b: "references_log path 0 s1 s2"
      by (rule "2.IH" [OF p [symmetric] Next x [symmetric] l])
    show ?thesis
    proof (cases o2)
      case (Throw e)
      with "2.prems" p Next x l have "s' = s2" by simp
      with u b show ?thesis by (simp add: project_log_references)
    next
      case (Return ds)
      with "2.prems" p Next x l
      have "visit env emitter path program ds t s2 = (r, s')" by simp
      from visit_drawn [OF this] u b show ?thesis
        by (blast intro: project_log_visit)
    qed
  qed
next
  case (3 fuel env emitter path i deps s)
  then show ?case by (simp add: references_log_refl)
next
  case (4 fuel env emitter path i rs deps s)
  then show ?case by (simp add: references_log_skip)
next
  case (5 fuel env emitter path i reference rs deps s)
  from "5.prems" obtain o1 s1 where
    c: "processProject fuel env emitter (path @ [i]) (commandLine reference) s = Some (o1, s1)"
    by (auto split: option.splits)
  have a: "project_log (path @ [i]) s s1"
    by (rule "5.IH"(1) [OF c])
  show ?case
  proof (cases o1)
    case (Throw e)
    with "5.prems" c have "s' = s1" by simp
    with a show ?thesis by (simp add: references_log_throw)
  next
    case (Return info)
    with "5.prems" c
    have l: "processReferences fuel env emitter path (Suc i) rs
               (case info of None \<Rightarrow> deps | Some x \<Rightarrow> deps @ [x]) s1 = Some (r', s')"
      by simp
    have "references_log path (Suc i) s1 s'"
      by (rule "5.IH"(2) [OF c HOL.refl Return l])
    with a show ?thesis by (rule references_log_step)
  qed
qed

lemma dependency_first_after_setup:
  assumes "dependency_first entries"
  shows "dependency_first (map (Pair Setup) ids @ entries)"
  using assms unfolding dependency_first_def by auto

lemma linkers_drawn:
  assumes "linkers env emitter root packageJson s = (r, s')"
  shows "\<exists>ids. drawn s' = drawn s @ map (Pair Setup) ids"
proof -
  obtain o1 s1 where a: "run_script Setup emitter (newImportLinker env root) s = (o1, s1)"
    by (cases "run_script Setup emitter (newImportLinker env root) s")
  from run_script_drawn [OF a]
  have d1: "drawn s1 = drawn s @ map (Pair Setup) [counter s..<counter s1]" by simp
  show ?thesis
  proof (cases "\<exists>u manifest. o1 = Return u \<and> packageJson = Some manifest")
    case True
    then obtain u manifest where o: "o1 = Return u" "packageJson = Some manifest" by blast
    with a assms
    have "run_script Setup emitter (newExportLinker env root manifest) s1 = (r, s')"
      by (simp add: linkers_def)
    from run_script_drawn [OF this] d1
    have "drawn s' = drawn s @ map (Pair Setup) ([counter s..<counter s1] @ [counter s1..<counter s'])"
      by simp
    then show ?thesis by blast
  next
    case False
    with a assms have "s' = s1"
      by (cases o1; cases packageJson) (simp_all add: linkers_def)
    with d1 show ?thesis by blast
  qed
qed

lemma run_dependency_first:
  assumes "run fuel env d = Some (r, s')"
  shows "dependency_first (drawn s')"
proof -
  let ?s = "startup env d"
  have e: "drawn ?s = []" by (simp add: startup_def)
  show ?thesis
  proof (cases "version (opts ?s) \<or> help' (opts ?s)")
    case True
    with assms e show ?thesis
      by (auto simp: run_def Let_def console_log_def dependency_first_Nil split: if_splits)
  next
    case False
    show ?thesis
    proof (cases "openSync env (disk ?s) (out (opts ?s))")
      case (Inl x)
      with False assms e show ?thesis by (simp add: run_def Let_def dependency_first_Nil)
    next
      case (Inr d1)
      let ?s2 = "?s\<lparr>disk := d1, sink := [], counter := createIdGenerator (opts ?s)\<rparr>"
      have e2: "drawn ?s2 = []" by (simp add: startup_def)
      let ?root = "case projectRoot (opts ?s) of
                     Some p \<Rightarrow> p
                   | None \<Rightarrow>
                       (let dir = path_posix_dirname env (makeAbsolute env ''package.json'')
                        in if \<not> path_isAbsolute env dir then makeAbsolute env dir else dir)"
      let ?pj = "PackageJson_read env (disk ?s) (makeAbsolute env ''package.json'')"
      obtain o3 s3 where l: "linkers env (create FileWriter) ?root ?pj ?s2 = (o3, s3)"
        by (cases "linkers env (create FileWriter) ?root ?pj ?s2")
      from linkers_drawn [OF l] e2 obtain ids where d3: "drawn s3 = map (Pair Setup) ids"
        by auto
      have n3: "dependency_first (drawn s3)"
        using dependency_first_after_setup [OF dependency_first_Nil, of ids] d3 by simp
      show ?thesis
      proof (cases o3)
        case (Throw e)
        with False Inr l assms have "s' = s3"
          by (simp add: run_def Let_def)
        with n3 show ?thesis by simp
      next
        case (Return u)
        with False Inr l assms obtain o4 where
          "processProject fuel env (create FileWriter) [] (parseCommandLine env (args env)) s3
             = Some (o4, s')"
          by (auto simp: run_def Let_def split: option.splits outcome.splits)
        then have "project_log [] s3 s'" by (rule processProject_log(1))
        then obtain entries where "drawn s' = drawn s3 @ entries" "dependency_first entries"
          unfolding project_log_def by blast
        with d3 show ?thesis by (simp add: dependency_first_after_setup)
      qed
    qed
  qed
qed

text \<open>
  C1. In the log of identifiers a call adds (and in the log of a whole run), every
  identifier drawn while processing a project that \<open>q\<close> depends on, that is during the
  recursive calls for the references of \<open>q\<close>, is less than every identifier drawn while
  \<open>q\<close> itself is processed, that is by the visitor of \<open>q\<close>.
\<close>

theorem dependencies_before_dependent:
  "(processProject fuel env emitter path config s = Some (r, s') \<longrightarrow>
      dependency_first (drop (length (drawn s)) (drawn s')))
   \<and> (run fuel env d = Some (r0, s0) \<longrightarrow> dependency_first (drawn s0))"
proof -
  have "dependency_first (drop (length (drawn s)) (drawn s'))"
    if "processProject fuel env emitter path config s = Some (r, s')"
  proof -
    from that have "project_log path s s'" by (rule processProject_log(1))
    then obtain entries where "drawn s' = drawn s @ entries" "dependency_first entries"
      unfolding project_log_def by blast
    then show ?thesis by simp
  qed
  then show ?thesis using run_dependency_first by blast
qed

theorem dependencies_before_dependent_witness:
  "map_option (\<lambda>(r, s). drop (length (drawn demo_world)) (drawn s))
     (processProject 3 demo_env (create FileWriter) [] (demo_project ''/w'') demo_world)
     = Some [(Project [0], 1), (Project [3], 2), (Project [], 3)]
   \<and> map_option (\<lambda>(r, s). drawn s) (run 3 demo_env demo_disk)
       = Some [(Project [0], 1), (Project [3], 2), (Project [], 3)]
   \<and> dependency_first [(Project [0], 1), (Project [3], 2), (Project [], 3)]
   \<and> strict_prefix [] [0 :: nat] \<and> strict_prefix [] [3 :: nat] \<and> (1 :: nat) < 3 \<and> (2 :: nat) < 3"
proof -
  from demo_processProject obtain r s' where
    p: "processProject 3 demo_env (create FileWriter) [] (demo_project ''/w'') demo_world
          = Some (r, s')"
    and d: "drawn s' = [(Project [0], 1), (Project [3], 2), (Project [], 3)]"
    by (auto simp: map_option_case split: option.splits)
  from demo_run obtain s0 where
    q: "run 3 demo_env demo_disk = Some (Return (), s0)"
    and d0: "drawn s0 = [(Project [0], 1), (Project [3], 2), (Project [], 3)]"
    by (auto simp: map_option_case split: option.splits)
  have e: "drawn demo_world = []" by (simp add: demo_world_def startup_def)
  from dependencies_before_dependent [of 3 demo_env "create FileWriter" "[]"
      "demo_project ''/w''" demo_world r s' demo_disk "Return ()" s0] p q d d0 e
  have "dependency_first [(Project [0], 1), (Project [3], 2), (Project [], 3)]" by simp
  with p q d d0 e show ?thesis by simp
qed

subsection \<open>The list of dependencies\<close>

lemma produced_Nil: "produced [] = []"
  by (simp add: produced_def)

lemma produced_Cons:
  "produced (result # results)
     = (case result of Some info \<Rightarrow> info # produced results | None \<Rightarrow> produced results)"
  by (simp add: produced_def split: option.splits)

text \<open>
  The loop of lines 185--196, which pushes onto \<open>deps\<close> as it goes, returns \<open>deps\<close>
  followed by what the analyses produced, and throws or runs out of fuel exactly when
  they do.
\<close>

lemma processReferences_analyses:
  "processReferences fuel env emitter path i rs deps s
     = (case analyses fuel env emitter path i rs s of
          None \<Rightarrow> None
        | Some (Throw e, s') \<Rightarrow> Some (Throw e, s')
        | Some (Return results, s') \<Rightarrow> Some (Return (deps @ produced results), s'))"
proof (induction rs arbitrary: i deps s)
  case Nil
  then show ?case by (simp add: produced_Nil)
next
  case (Cons a rs)
  show ?case
  proof (cases a)
    case None
    then show ?thesis by (simp add: Cons.IH)
  next
    case (Some reference)
    then show ?thesis
      by (simp add: Cons.IH produced_Cons split: option.splits prod.splits outcome.splits)
  qed
qed

lemma visit_visits:
  "visits (snd (visit env emitter path program deps t s))
     = visits s @ [\<lparr>languageService = program, visitorOptions = opts s,
                    dependsOn = deps, tsConfigFile = t\<rparr>]"
proof -
  let ?call = "\<lparr>languageService = program, visitorOptions = opts s,
                dependsOn = deps, tsConfigFile = t\<rparr>"
  obtain r s' where v: "run_script (Project path) emitter (lsif env ?call)
                          (s\<lparr>visits := visits s @ [?call]\<rparr>) = (r, s')"
    by (cases "run_script (Project path) emitter (lsif env ?call) (s\<lparr>visits := visits s @ [?call]\<rparr>)")
  from run_script_only [OF v] have "visits s' = visits s @ [?call]"
    by (simp add: script_only_def)
  with v show ?thesis by (simp add: visit_def Let_def)
qed

text \<open>
  C8. When the steps before the references succeed and the analyses of the resolved
  references return \<open>results\<close> (one entry per resolved reference, in the order declared,
  \<open>None\<close> for an analysis that returned \<^verbatim>\<open>undefined\<close>), the loop returns exactly the
  ProjectInfo that were produced, in that order, and the project goes on to its visitor,
  which is called with that list as \<open>dependsOn\<close>: a reference without a ProjectInfo is
  left out and stops nothing.
\<close>

theorem dependsOn_of_references:
  assumes "prepare env config s = (Next (tsconfigFileName, program), s1)"
    and "analyses fuel env emitter path 0
           (case getResolvedProjectReferences program of None \<Rightarrow> [] | Some rs \<Rightarrow> rs) s1
         = Some (Return results, s2)"
  shows "processReferences fuel env emitter path 0
           (case getResolvedProjectReferences program of None \<Rightarrow> [] | Some rs \<Rightarrow> rs) [] s1
         = Some (Return [info. Some info \<leftarrow> results], s2)
     \<and> processProject (Suc fuel) env emitter path config s
         = Some (visit env emitter path program [info. Some info \<leftarrow> results] tsconfigFileName s2)
     \<and> visits (snd (visit env emitter path program [info. Some info \<leftarrow> results] tsconfigFileName s2))
         = visits s2 @ [\<lparr>languageService = program, visitorOptions = opts s2,
                         dependsOn = [info. Some info \<leftarrow> results],
                         tsConfigFile = tsconfigFileName\<rparr>]"
proof -
  have l: "processReferences fuel env emitter path 0
           (case getResolvedProjectReferences program of None \<Rightarrow> [] | Some rs \<Rightarrow> rs) [] s1
         = Some (Return (produced results), s2)"
    using assms(2) by (simp add: processReferences_analyses)
  then have "processProject (Suc fuel) env emitter path config s
         = Some (visit env emitter path program (produced results) tsconfigFileName s2)"
    using assms(1) by simp
  with l visit_visits [of env emitter path program "produced results" tsconfigFileName s2]
  show ?thesis by (simp add: produced_def)
qed

theorem dependsOn_of_references_witness:
  "fst (prepare demo_env (demo_project ''/w'') demo_world)
     = Next (Some ''/w/tsconfig.json'',
             \<lparr>getResolvedProjectReferences =
                Some [demo_reference ''lib'', demo_reference ''gone'', demo_reference ''lost'',
                      demo_reference ''util'']\<rparr>)
   \<and> map_option fst
       (analyses 2 demo_env (create FileWriter) [] 0
          [demo_reference ''lib'', demo_reference ''gone'', demo_reference ''lost'',
           demo_reference ''util'']
          (snd (prepare demo_env (demo_project ''/w'') demo_world)))
       = Some (Return [Some (ProjectInfo 1 None []), None, Some (ProjectInfo 2 None [])])
   \<and> map_option (\<lambda>(r, s). map dependsOn (visits s))
       (processProject 3 demo_env (create FileWriter) [] (demo_project ''/w'') demo_world)
       = Some [[], [], [ProjectInfo 1 None [], ProjectInfo 2 None []]]"
proof -
  let ?program = "\<lparr>getResolvedProjectReferences =
                Some [demo_reference ''lib'', demo_reference ''gone'', demo_reference ''lost'',
                      demo_reference ''util'']\<rparr>"
  let ?s1 = "snd (prepare demo_env (demo_project ''/w'') demo_world)"
  have p: "prepare demo_env (demo_project ''/w'') demo_world
             = (Next (Some ''/w/tsconfig.json'', ?program), ?s1)"
    using demo_prepare by (simp add: prod_eq_iff)
  from demo_analyses obtain s2 where
    a: "analyses 2 demo_env (create FileWriter) [] 0
          (case getResolvedProjectReferences ?program of None \<Rightarrow> [] | Some rs \<Rightarrow> rs) ?s1
        = Some (Return [Some (ProjectInfo 1 None []), None, Some (ProjectInfo 2 None [])], s2)"
    by (auto simp: map_option_case split: option.splits)
  from dependsOn_of_references [OF p a]
  have "map dependsOn (visits (snd (the
          (processProject (Suc 2) demo_env (create FileWriter) [] (demo_project ''/w'') demo_world))))
        = map dependsOn (visits s2) @ [[ProjectInfo 1 None [], ProjectInfo 2 None []]]"
    by simp
  with demo_prepare demo_analyses demo_processProject show ?thesis
    by (auto simp: map_option_case split: option.splits)
qed

subsection \<open>The roots in the shared options\<close>

lemma prepare_cases [consumes 1, case_names config files roots typings program ready]:
  assumes "prepare env config s = (f, s')"
  obtains
    (config) r where "resolveConfig env config s = (Stop r, s')" "f = Stop r"
  | (files) t c r where "resolveConfig env config s = (Next (t, c), s)"
      "checkInputFiles c s = (Stop r, s')" "f = Stop r"
  | (roots) t c r where "resolveConfig env config s = (Next (t, c), s)"
      "resolveRoots env s = (Stop r, s')" "f = Stop r"
  | (typings) t c root s2 r where "resolveConfig env config s = (Next (t, c), s)"
      "resolveRoots env s = (Next root, s2)" "inferTypes env t c root s2 = (Stop r, s')" "f = Stop r"
  | (program) t c root s2 s3 r where "resolveConfig env config s = (Next (t, c), s)"
      "resolveRoots env s = (Next root, s2)" "inferTypes env t c root s2 = (Next (), s3)"
      "createProgram env t c s3 = (Stop r, s')" "f = Stop r"
  | (ready) t c root s2 program where "resolveConfig env config s = (Next (t, c), s)"
      "resolveRoots env s = (Next root, s2)" "inferTypes env t c root s2 = (Next (), s')"
      "createProgram env t c s' = (Next program, s')" "f = Next (t, program)"
proof -
  obtain f1 s1 where 1: "resolveConfig env config s = (f1, s1)"
    by (cases "resolveConfig env config s")
  show ?thesis
  proof (cases f1)
    case (Stop r)
    with 1 assms have "s' = s1" "f = Stop r" by (simp_all add: prepare_def bind_def)
    with 1 Stop show ?thesis by (auto intro: config)
  next
    case (Next x)
    obtain t c where x: "x = (t, c)" by (cases x)
    from 1 Next have s1: "s1 = s" by (auto dest: resolveConfig_Next)
    note 1 = 1 [unfolded Next x s1]
    obtain f2 s2' where 2: "checkInputFiles c s = (f2, s2')" by (cases "checkInputFiles c s")
    show ?thesis
    proof (cases f2)
      case (Stop r)
      with 1 2 assms have "s' = s2'" "f = Stop r" by (simp_all add: prepare_def bind_def)
      with 1 2 Stop show ?thesis by (auto intro: files)
    next
      case Next2: (Next u)
      from 2 Next2 have s2': "s2' = s"
        by (auto simp: checkInputFiles_def split: if_splits)
      note 2 = 2 [unfolded Next2 s2']
      obtain f3 s3 where 3: "resolveRoots env s = (f3, s3)" by (cases "resolveRoots env s")
      show ?thesis
      proof (cases f3)
        case (Stop r)
        with 1 2 3 assms have "s' = s3" "f = Stop r" by (simp_all add: prepare_def bind_def)
        with 1 3 Stop show ?thesis by (auto intro: roots)
      next
        case Next3: (Next root)
        note 3 = 3 [unfolded Next3]
        obtain f4 s4 where 4: "inferTypes env t c root s3 = (f4, s4)"
          by (cases "inferTypes env t c root s3")
        show ?thesis
        proof (cases f4)
          case (Stop r)
          with 1 2 3 4 assms have "s' = s4" "f = Stop r" by (simp_all add: prepare_def bind_def)
          with 1 3 4 Stop show ?thesis by (auto intro: typings)
        next
          case Next4: (Next u4)
          note 4 = 4 [unfolded Next4]
          obtain f5 s5 where 5: "createProgram env t c s4 = (f5, s5)"
            by (cases "createProgram env t c s4")
          show ?thesis
          proof (cases f5)
            case (Stop r)
            with 1 2 3 4 5 assms have "s' = s5" "f = Stop r"
              by (simp_all add: prepare_def bind_def)
            with 1 3 4 5 Stop show ?thesis by (auto intro: program)
          next
            case Next5: (Next prog)
            from 5 Next5 have s5: "s5 = s4"
              by (auto simp: createProgram_def split: option.splits)
            with 1 2 3 4 5 Next5 assms have "s' = s4" "f = Next (t, prog)"
              by (simp_all add: prepare_def bind_def)
            with 1 3 4 5 Next5 s5 show ?thesis by (auto intro: ready)
          qed
        qed
      qed
    qed
  qed
qed

lemma resolveConfig_same_options: "resolveConfig env config s = (r, s1) \<Longrightarrow> same_options s s1"
  by (auto simp: resolveConfig_def same_options_def console_error_def Let_def
      split: option.splits if_splits sum.splits)

lemma checkInputFiles_same_options: "checkInputFiles config s = (r, s1) \<Longrightarrow> same_options s s1"
  by (auto simp: checkInputFiles_def same_options_def console_error_def split: if_splits)

lemma inferTypes_same_options: "inferTypes env t config root s = (r, s1) \<Longrightarrow> same_options s s1"
  by (auto simp: inferTypes_def same_options_def split: if_splits sum.splits)

lemma createProgram_same_options: "createProgram env t config s = (r, s1) \<Longrightarrow> same_options s s1"
  by (auto simp: createProgram_def same_options_def console_error_def split: option.splits)

text \<open>Once the roots are settled, the step of lines 112--120 changes nothing.\<close>

lemma resolveRoots_settled:
  assumes "settled env s"
  shows "\<exists>root. resolveRoots env s = (Next root, s)"
proof -
  from assms obtain pr rr where r: "projectRoot (opts s) = Some pr" "repositoryRoot (opts s) = Some rr"
    "makeAbsolute env pr = pr" "makeAbsolute env rr = rr"
    unfolding settled_def by blast
  have "(opts s)\<lparr>projectRoot := Some pr, repositoryRoot := Some rr\<rparr> = opts s"
    using r(1,2) by simp
  then have "s\<lparr>opts := (opts s)\<lparr>projectRoot := Some pr, repositoryRoot := Some rr\<rparr>\<rparr> = s"
    by simp
  with r show ?thesis by (simp add: resolveRoots_def Let_def)
qed

text \<open>The first time: the roots are filled in, and git runs only for a missing repository root.\<close>

lemma resolveRoots_commands:
  assumes "resolveRoots env s = (f, s1)"
  shows "commands s1 = commands s
     \<or> (repositoryRoot (opts s) = None
         \<and> commands s1 = commands s @ [''git rev-parse --show-toplevel''])"
  using assms
  by (auto simp: resolveRoots_def Let_def split: option.splits sum.splits)

lemma resolveRoots_first:
  assumes idem: "\<forall>p. makeAbsolute env (makeAbsolute env p) = makeAbsolute env p"
    and "resolveRoots env s = (Next root, s1)"
  shows "settled env s1
     \<and> projectRoot (opts s1)
         = Some (makeAbsolute env (case projectRoot (opts s) of None \<Rightarrow> cwd env | Some p \<Rightarrow> p))
     \<and> (case repositoryRoot (opts s) of
           Some r \<Rightarrow> repositoryRoot (opts s1) = Some (makeAbsolute env r)
         | None \<Rightarrow> \<exists>printed. execSync env ''git rev-parse --show-toplevel'' = Inr printed
                      \<and> repositoryRoot (opts s1) = Some (makeAbsolute env (trimRight printed)))"
  using assms
  by (auto simp: resolveRoots_def settled_def Let_def split: option.splits sum.splits)

lemma settled_cong: "opts s1 = opts s \<Longrightarrow> settled env s1 = settled env s"
  by (simp add: settled_def)

lemma same_options_trans: "same_options s s1 \<Longrightarrow> same_options s1 s2 \<Longrightarrow> same_options s s2"
  by (simp add: same_options_def)

lemma prepare_settled:
  assumes "settled env s" and "prepare env config s = (f, s1)"
  shows "same_options s s1"
proof -
  from resolveRoots_settled [OF assms(1)] obtain root0 where
    rr: "resolveRoots env s = (Next root0, s)" by blast
  from assms(2) show ?thesis
  proof (cases rule: prepare_cases)
    case (config r)
    from config(1) show ?thesis by (rule resolveConfig_same_options)
  next
    case (files t c r)
    from files(2) show ?thesis by (rule checkInputFiles_same_options)
  next
    case (roots t c r)
    with rr show ?thesis by simp
  next
    case (typings t c root s2 r)
    from typings(2) rr have "s2 = s" by simp
    with typings(3) show ?thesis by (simp add: inferTypes_same_options)
  next
    case (program t c root s2 s3 r)
    from program(2) rr have "s2 = s" by simp
    with program(3) have "same_options s s3" by (simp add: inferTypes_same_options)
    moreover from program(4) have "same_options s3 s1" by (rule createProgram_same_options)
    ultimately show ?thesis by (rule same_options_trans)
  next
    case (ready t c root s2 program)
    from ready(2) rr have "s2 = s" by simp
    with ready(3) show ?thesis by (simp add: inferTypes_same_options)
  qed
qed

lemma prepare_first:
  assumes idem: "\<forall>p. makeAbsolute env (makeAbsolute env p) = makeAbsolute env p"
    and "prepare env config s = (f, s1)"
  shows "(commands s1 = commands s
           \<or> (repositoryRoot (opts s) = None
               \<and> commands s1 = commands s @ [''git rev-parse --show-toplevel'']))
     \<and> (\<forall>x. f = Next x \<longrightarrow>
           settled env s1
           \<and> projectRoot (opts s1)
               = Some (makeAbsolute env (case projectRoot (opts s) of None \<Rightarrow> cwd env | Some p \<Rightarrow> p))
           \<and> (case repositoryRoot (opts s) of
                 Some r \<Rightarrow> repositoryRoot (opts s1) = Some (makeAbsolute env r)
               | None \<Rightarrow> \<exists>printed. execSync env ''git rev-parse --show-toplevel'' = Inr printed
                            \<and> repositoryRoot (opts s1) = Some (makeAbsolute env (trimRight printed))))"
  using assms(2)
proof (cases rule: prepare_cases)
  case (config r)
  from config(1) have "same_options s s1" by (rule resolveConfig_same_options)
  with config(2) show ?thesis by (simp add: same_options_def)
next
  case (files t c r)
  from files(2) have "same_options s s1" by (rule checkInputFiles_same_options)
  with files(3) show ?thesis by (simp add: same_options_def)
next
  case (roots t c r)
  from resolveRoots_commands [OF roots(2)] roots(3) show ?thesis by simp
next
  case (typings t c root s2 r)
  from typings(3) have "same_options s2 s1" by (rule inferTypes_same_options)
  with typings(4) resolveRoots_commands [OF typings(2)] show ?thesis
    by (simp add: same_options_def)
next
  case (program t c root s2 s3 r)
  from program(3) have "same_options s2 s3" by (rule inferTypes_same_options)
  moreover from program(4) have "same_options s3 s1" by (rule createProgram_same_options)
  ultimately have "same_options s2 s1" by (rule same_options_trans)
  with program(5) resolveRoots_commands [OF program(2)] show ?thesis
    by (simp add: same_options_def)
next
  case (ready t c root s2 program)
  from ready(3) have so: "same_options s2 s1" by (rule inferTypes_same_options)
  then have o: "opts s1 = opts s2" and c: "commands s1 = commands s2"
    by (simp_all add: same_options_def)
  have "settled env s1
     \<and> projectRoot (opts s1)
         = Some (makeAbsolute env (case projectRoot (opts s) of None \<Rightarrow> cwd env | Some p \<Rightarrow> p))
     \<and> (case repositoryRoot (opts s) of
           Some r \<Rightarrow> repositoryRoot (opts s1) = Some (makeAbsolute env r)
         | None \<Rightarrow> \<exists>printed. execSync env ''git rev-parse --show-toplevel'' = Inr printed
                      \<and> repositoryRoot (opts s1) = Some (makeAbsolute env (trimRight printed)))"
    using resolveRoots_first [OF idem ready(2)] unfolding settled_def o by (auto split: option.splits)
  moreover from resolveRoots_commands [OF ready(2)] c
  have "commands s1 = commands s
           \<or> (repositoryRoot (opts s) = None
               \<and> commands s1 = commands s @ [''git rev-parse --show-toplevel''])"
    by simp
  ultimately show ?thesis by blast
qed

lemma kept_refl: "kept env s s"
  by (simp add: kept_def same_options_def)

lemma kept_trans:
  assumes "kept env s s1" and "kept env s1 s2"
  shows "kept env s s2"
  unfolding kept_def
proof
  assume st: "settled env s"
  with assms(1) obtain c1 where a: "same_options s s1" "visits s1 = visits s @ c1"
    "\<forall>v \<in> set c1. visitorOptions v = opts s"
    unfolding kept_def by blast
  from a(1) have o: "opts s1 = opts s" by (simp add: same_options_def)
  from st have "settled env s1" unfolding settled_cong [OF o] .
  with assms(2) obtain c2 where b: "same_options s1 s2" "visits s2 = visits s1 @ c2"
    "\<forall>v \<in> set c2. visitorOptions v = opts s1"
    unfolding kept_def by blast
  have "visits s2 = visits s @ (c1 @ c2)" using a(2) b(2) by simp
  moreover have "\<forall>v \<in> set (c1 @ c2). visitorOptions v = opts s"
    using a(3) b(3) o by auto
  moreover have "same_options s s2" using a(1) b(1) by (rule same_options_trans)
  ultimately show "same_options s s2
    \<and> (\<exists>calls. visits s2 = visits s @ calls \<and> (\<forall>v \<in> set calls. visitorOptions v = opts s))"
    by blast
qed

lemma prepare_kept:
  assumes "prepare env config s = (f, s1)"
  shows "kept env s s1"
  unfolding kept_def
proof
  assume "settled env s"
  then have "same_options s s1" using assms by (rule prepare_settled)
  moreover from prepare_untouched [OF assms] have "visits s1 = visits s @ []"
    by (simp add: untouched_def)
  ultimately show "same_options s s1
    \<and> (\<exists>calls. visits s1 = visits s @ calls \<and> (\<forall>v \<in> set calls. visitorOptions v = opts s))"
    by fastforce
qed

lemma visit_kept:
  assumes "visit env emitter path program deps t s = (r, s1)"
  shows "kept env s s1"
proof -
  let ?call = "\<lparr>languageService = program, visitorOptions = opts s,
                dependsOn = deps, tsConfigFile = t\<rparr>"
  from assms have "run_script (Project path) emitter (lsif env ?call)
                          (s\<lparr>visits := visits s @ [?call]\<rparr>) = (r, s1)"
    by (simp add: visit_def Let_def)
  from run_script_only [OF this]
  have "same_options s s1" and "visits s1 = visits s @ [?call]"
    by (simp_all add: script_only_def same_options_def)
  moreover have "\<forall>v \<in> set [?call]. visitorOptions v = opts s" by simp
  ultimately show ?thesis unfolding kept_def by blast
qed

lemma processProject_kept:
  shows "processProject fuel env emitter path config s = Some (r, s') \<Longrightarrow> kept env s s'"
    and "processReferences fuel env emitter path i rs deps s = Some (r', s') \<Longrightarrow> kept env s s'"
proof -
  have 1: "kept env s s" for s by (rule kept_refl)
  have 2: "kept env s s1 \<Longrightarrow> kept env s1 s2 \<Longrightarrow> kept env s s2" for s s1 s2
    by (rule kept_trans)
  have 3: "prepare env config s = (r, s1) \<Longrightarrow> kept env s s1" for config s r s1
    by (rule prepare_kept)
  have 4: "visit env emitter path program deps t s = (r, s1) \<Longrightarrow> kept env s s1"
    for path program deps t s r s1
    by (rule visit_kept)
  show "processProject fuel env emitter path config s = Some (r, s') \<Longrightarrow> kept env s s'"
    by (rule processProject_preserves(1) [of "kept env" env emitter, OF 1 2 3 4])
  show "processReferences fuel env emitter path i rs deps s = Some (r', s') \<Longrightarrow> kept env s s'"
    by (rule processProject_preserves(2) [of "kept env" env emitter, OF 1 2 3 4])
qed

text \<open>After the steps before the references have succeeded: the rest of the call.\<close>

lemma processProject_rest:
  assumes rfl: "\<And>s. R s s"
    and trn: "\<And>s s1 s2. R s s1 \<Longrightarrow> R s1 s2 \<Longrightarrow> R s s2"
    and prep: "\<And>config s r s1. prepare env config s = (r, s1) \<Longrightarrow> R s s1"
    and vis: "\<And>path program deps t s r s1.
                visit env emitter path program deps t s = (r, s1) \<Longrightarrow> R s s1"
    and call: "processProject (Suc fuel) env emitter path config s = Some (r, s')"
    and ready: "prepare env config s = (Next x, s1)"
  shows "R s1 s'"
proof -
  obtain t program where x: "x = (t, program)" by (cases x)
  let ?rs = "case getResolvedProjectReferences program of None \<Rightarrow> [] | Some rs \<Rightarrow> rs"
  from call ready x obtain o2 s2 where
    l: "processReferences fuel env emitter path 0 ?rs [] s1 = Some (o2, s2)"
    by (auto split: option.splits)
  have k: "R s1 s2"
    by (rule processProject_preserves(2) [of R env emitter, OF rfl trn prep vis l])
  show ?thesis
  proof (cases o2)
    case (Throw e)
    with call ready x l have "s' = s2" by simp
    with k show ?thesis by simp
  next
    case (Return ds)
    with call ready x l have "visit env emitter path program ds t s2 = (r, s')" by simp
    then have "R s2 s'" by (rule vis)
    with k show ?thesis by (rule trn)
  qed
qed

lemma processProject_rest_kept:
  assumes "processProject (Suc fuel) env emitter path config s = Some (r, s')"
    and "prepare env config s = (Next x, s1)"
  shows "kept env s1 s'"
  using kept_refl kept_trans prepare_kept visit_kept assms
  by (rule processProject_rest [of "kept env" env emitter])

text \<open>With both roots filled in, git is not run again and they stay filled in.\<close>

lemma quiet_refl: "quiet s s"
  by (simp add: quiet_def)

lemma quiet_trans: "quiet s s1 \<Longrightarrow> quiet s1 s2 \<Longrightarrow> quiet s s2"
  by (simp add: quiet_def)

lemma same_options_quiet: "same_options s s1 \<Longrightarrow> quiet s s1"
  by (simp add: quiet_def same_options_def filled_def)

lemma resolveRoots_quiet: "resolveRoots env s = (f, s1) \<Longrightarrow> quiet s s1"
  by (auto simp: resolveRoots_def quiet_def filled_def Let_def split: option.splits sum.splits)

lemma resolveRoots_fills: "resolveRoots env s = (Next root, s1) \<Longrightarrow> filled s1"
  by (auto simp: resolveRoots_def filled_def Let_def split: option.splits sum.splits)

lemma prepare_quiet:
  assumes "prepare env config s = (f, s1)"
  shows "quiet s s1"
  using assms
proof (cases rule: prepare_cases)
  case (config r)
  from config(1) show ?thesis by (rule same_options_quiet [OF resolveConfig_same_options])
next
  case (files t c r)
  from files(2) show ?thesis by (rule same_options_quiet [OF checkInputFiles_same_options])
next
  case (roots t c r)
  from roots(2) show ?thesis by (rule resolveRoots_quiet)
next
  case (typings t c root s2 r)
  from typings(2) have "quiet s s2" by (rule resolveRoots_quiet)
  moreover from typings(3) have "quiet s2 s1"
    by (rule same_options_quiet [OF inferTypes_same_options])
  ultimately show ?thesis by (rule quiet_trans)
next
  case (program t c root s2 s3 r)
  from program(2) have "quiet s s2" by (rule resolveRoots_quiet)
  moreover from program(3) have "quiet s2 s3"
    by (rule same_options_quiet [OF inferTypes_same_options])
  moreover from program(4) have "quiet s3 s1"
    by (rule same_options_quiet [OF createProgram_same_options])
  ultimately show ?thesis by (meson quiet_trans)
next
  case (ready t c root s2 program)
  from ready(2) have "quiet s s2" by (rule resolveRoots_quiet)
  moreover from ready(3) have "quiet s2 s1"
    by (rule same_options_quiet [OF inferTypes_same_options])
  ultimately show ?thesis by (rule quiet_trans)
qed

lemma prepare_fills:
  assumes "prepare env config s = (Next x, s1)"
  shows "filled s1"
  using assms
proof (cases rule: prepare_cases)
  case (ready t c root s2 program)
  from ready(2) have "filled s2" by (rule resolveRoots_fills)
  moreover from ready(3) have "opts s1 = opts s2"
    by (auto dest!: inferTypes_same_options simp: same_options_def)
  ultimately show ?thesis by (simp add: filled_def)
qed simp_all

lemma prepare_commands:
  assumes "prepare env config s = (f, s1)"
  shows "commands s1 = commands s
     \<or> (repositoryRoot (opts s) = None
         \<and> commands s1 = commands s @ [''git rev-parse --show-toplevel''])"
  using assms
proof (cases rule: prepare_cases)
  case (config r)
  from config(1) have "same_options s s1" by (rule resolveConfig_same_options)
  then show ?thesis by (simp add: same_options_def)
next
  case (files t c r)
  from files(2) have "same_options s s1" by (rule checkInputFiles_same_options)
  then show ?thesis by (simp add: same_options_def)
next
  case (roots t c r)
  from roots(2) show ?thesis by (rule resolveRoots_commands)
next
  case (typings t c root s2 r)
  from typings(3) have "same_options s2 s1" by (rule inferTypes_same_options)
  with resolveRoots_commands [OF typings(2)] show ?thesis
    by (simp add: same_options_def)
next
  case (program t c root s2 s3 r)
  from program(3) have "same_options s2 s3" by (rule inferTypes_same_options)
  moreover from program(4) have "same_options s3 s1" by (rule createProgram_same_options)
  ultimately have "same_options s2 s1" by (rule same_options_trans)
  with resolveRoots_commands [OF program(2)] show ?thesis
    by (simp add: same_options_def)
next
  case (ready t c root s2 program)
  from ready(3) have "same_options s2 s1" by (rule inferTypes_same_options)
  with resolveRoots_commands [OF ready(2)] show ?thesis
    by (simp add: same_options_def)
qed

lemma visit_quiet:
  assumes "visit env emitter path program deps t s = (r, s1)"
  shows "quiet s s1"
proof -
  let ?call = "\<lparr>languageService = program, visitorOptions = opts s,
                dependsOn = deps, tsConfigFile = t\<rparr>"
  from assms have "run_script (Project path) emitter (lsif env ?call)
                          (s\<lparr>visits := visits s @ [?call]\<rparr>) = (r, s1)"
    by (simp add: visit_def Let_def)
  from run_script_only [OF this] have "same_options s s1"
    by (simp add: script_only_def same_options_def)
  then show ?thesis by (rule same_options_quiet)
qed

lemma processProject_git_once:
  assumes "processProject fuel env emitter path config s = Some (r, s')"
  shows "commands s' = commands s
     \<or> (repositoryRoot (opts s) = None
         \<and> commands s' = commands s @ [''git rev-parse --show-toplevel''])"
proof -
  from assms obtain n where fuel: "fuel = Suc n" by (cases fuel) simp_all
  obtain f s1 where p: "prepare env config s = (f, s1)" by (cases "prepare env config s")
  note first = prepare_commands [OF p]
  show ?thesis
  proof (cases f)
    case (Stop r0)
    with assms p fuel have "s' = s1" by simp
    with first show ?thesis by simp
  next
    case (Next x)
    have "quiet s1 s'"
      using quiet_refl quiet_trans prepare_quiet visit_quiet assms p
      unfolding fuel Next by (rule processProject_rest [of quiet env emitter])
    moreover from p have "filled s1" unfolding Next by (rule prepare_fills)
    ultimately have "commands s' = commands s1" by (simp add: quiet_def)
    with first show ?thesis by simp
  qed
qed

lemma processProject_roots:
  assumes "\<forall>p. makeAbsolute env (makeAbsolute env p) = makeAbsolute env p"
    and "processProject fuel env emitter path config s = Some (r, s')"
  shows "(commands s' = commands s
           \<or> (repositoryRoot (opts s) = None
               \<and> commands s' = commands s @ [''git rev-parse --show-toplevel'']))
     \<and> (\<forall>v \<in> set (drop (length (visits s)) (visits s')). visitorOptions v = opts s')
     \<and> (drop (length (visits s)) (visits s') \<noteq> [] \<longrightarrow>
           projectRoot (opts s')
             = Some (makeAbsolute env (case projectRoot (opts s) of None \<Rightarrow> cwd env | Some p \<Rightarrow> p))
           \<and> (case repositoryRoot (opts s) of
                 Some root \<Rightarrow> repositoryRoot (opts s') = Some (makeAbsolute env root)
               | None \<Rightarrow> \<exists>printed. execSync env ''git rev-parse --show-toplevel'' = Inr printed
                            \<and> repositoryRoot (opts s') = Some (makeAbsolute env (trimRight printed))))"
proof -
  from assms(2) obtain n where fuel: "fuel = Suc n" by (cases fuel) simp_all
  obtain f s1 where p: "prepare env config s = (f, s1)" by (cases "prepare env config s")
  note first = prepare_first [OF assms(1) p]
  from prepare_untouched [OF p] have v1: "visits s1 = visits s" by (simp add: untouched_def)
  show ?thesis
  proof (cases f)
    case (Stop r0)
    with assms(2) p fuel have "s' = s1" by simp
    with first v1 show ?thesis by simp
  next
    case (Next x)
    have "kept env s1 s'"
      using assms(2) p unfolding fuel Next by (rule processProject_rest_kept)
    moreover from first Next have st: "settled env s1" by simp
    ultimately obtain calls where so: "same_options s1 s'" and v: "visits s' = visits s1 @ calls"
      and c: "\<forall>v \<in> set calls. visitorOptions v = opts s1"
      unfolding kept_def by blast
    from so have o: "opts s' = opts s1" and cm: "commands s' = commands s1"
      by (simp_all add: same_options_def)
    from v v1 have d: "drop (length (visits s)) (visits s') = calls" by simp
    from first Next have roots: "projectRoot (opts s1)
             = Some (makeAbsolute env (case projectRoot (opts s) of None \<Rightarrow> cwd env | Some p \<Rightarrow> p))
           \<and> (case repositoryRoot (opts s) of
                 Some root \<Rightarrow> repositoryRoot (opts s1) = Some (makeAbsolute env root)
               | None \<Rightarrow> \<exists>printed. execSync env ''git rev-parse --show-toplevel'' = Inr printed
                            \<and> repositoryRoot (opts s1) = Some (makeAbsolute env (trimRight printed)))"
      by simp
    from first have cmd: "commands s1 = commands s
           \<or> (repositoryRoot (opts s) = None
               \<and> commands s1 = commands s @ [''git rev-parse --show-toplevel''])"
      by simp
    show ?thesis unfolding d o cm using c roots cmd by simp
  qed
qed

lemma script_only_trans: "script_only s s1 \<Longrightarrow> script_only s1 s2 \<Longrightarrow> script_only s s2"
  by (simp add: script_only_def)

lemma linkers_only:
  assumes "linkers env emitter root packageJson s = (r, s')"
  shows "script_only s s'"
proof -
  obtain o1 s1 where a: "run_script Setup emitter (newImportLinker env root) s = (o1, s1)"
    by (cases "run_script Setup emitter (newImportLinker env root) s")
  then have 1: "script_only s s1" by (rule run_script_only)
  show ?thesis
  proof (cases "\<exists>u manifest. o1 = Return u \<and> packageJson = Some manifest")
    case True
    then obtain u manifest where o: "o1 = Return u" "packageJson = Some manifest" by blast
    with a assms
    have "run_script Setup emitter (newExportLinker env root manifest) s1 = (r, s')"
      by (simp add: linkers_def)
    then have "script_only s1 s'" by (rule run_script_only)
    with 1 show ?thesis by (rule script_only_trans)
  next
    case False
    with a assms have "s' = s1"
      by (cases o1; cases packageJson) (simp_all add: linkers_def)
    with 1 show ?thesis by simp
  qed
qed

lemma run_cases [consumes 1, case_names early processed]:
  assumes "run fuel env d = Some (r, s')"
  obtains (early) "commands s' = []" "visits s' = []"
  | (processed) s3 o4 where "commands s3 = []" "visits s3 = []"
      "processProject fuel env (create FileWriter) [] (parseCommandLine env (args env)) s3
         = Some (o4, s')"
proof -
  let ?s = "startup env d"
  have e: "commands ?s = []" "visits ?s = []" by (simp_all add: startup_def)
  show ?thesis
  proof (cases "version (opts ?s) \<or> help' (opts ?s)")
    case True
    with assms e have "commands s' = []" "visits s' = []"
      by (auto simp: run_def Let_def console_log_def split: if_splits)
    then show ?thesis by (rule early)
  next
    case False
    show ?thesis
    proof (cases "openSync env (disk ?s) (out (opts ?s))")
      case (Inl x)
      with False assms e have "commands s' = []" "visits s' = []"
        by (simp_all add: run_def Let_def)
      then show ?thesis by (rule early)
    next
      case (Inr d1)
      let ?s2 = "?s\<lparr>disk := d1, sink := [], counter := createIdGenerator (opts ?s)\<rparr>"
      let ?root = "case projectRoot (opts ?s) of
                     Some p \<Rightarrow> p
                   | None \<Rightarrow>
                       (let dir = path_posix_dirname env (makeAbsolute env ''package.json'')
                        in if \<not> path_isAbsolute env dir then makeAbsolute env dir else dir)"
      let ?pj = "PackageJson_read env (disk ?s) (makeAbsolute env ''package.json'')"
      obtain o3 s3 where l: "linkers env (create FileWriter) ?root ?pj ?s2 = (o3, s3)"
        by (cases "linkers env (create FileWriter) ?root ?pj ?s2")
      from linkers_only [OF l] e have e3: "commands s3 = []" "visits s3 = []"
        by (simp_all add: script_only_def)
      show ?thesis
      proof (cases o3)
        case (Throw e)
        with False Inr l assms have "s' = s3"
          by (simp add: run_def Let_def)
        with e3 show ?thesis by (auto intro: early)
      next
        case (Return u)
        with False Inr l assms obtain o4 where
          "processProject fuel env (create FileWriter) [] (parseCommandLine env (args env)) s3
             = Some (o4, s')"
          by (auto simp: run_def Let_def split: option.splits outcome.splits)
        with e3 show ?thesis by (rule processed)
      qed
    qed
  qed
qed

text \<open>
  C10. The first call to reach lines 112--120 fills in both roots of the shared options
  (the working directory and what git printed, without trailing white space, by default)
  and makes them absolute. A call of \<open>processProject\<close>, with all its nested calls, runs
  git at most once, and only when no repository root is set; so does a whole run.
  Provided \<open>makeAbsolute\<close> leaves a path it has produced as it is, every visitor called
  during the call, for the project or for any nested project, is handed the options as
  they are when the call ends, and when any visitor ran these hold the two absolute
  roots.
\<close>

theorem roots_resolved_once:
  "(processProject fuel env emitter path config s = Some (r, s') \<longrightarrow>
      (commands s' = commands s
        \<or> (repositoryRoot (opts s) = None
            \<and> commands s' = commands s @ [''git rev-parse --show-toplevel'']))
      \<and> ((\<forall>p. makeAbsolute env (makeAbsolute env p) = makeAbsolute env p) \<longrightarrow>
            (\<forall>v \<in> set (drop (length (visits s)) (visits s')). visitorOptions v = opts s')
            \<and> (drop (length (visits s)) (visits s') \<noteq> [] \<longrightarrow>
                  projectRoot (opts s')
                    = Some (makeAbsolute env
                              (case projectRoot (opts s) of None \<Rightarrow> cwd env | Some p \<Rightarrow> p))
                  \<and> (case repositoryRoot (opts s) of
                        Some root \<Rightarrow> repositoryRoot (opts s') = Some (makeAbsolute env root)
                      | None \<Rightarrow>
                          \<exists>printed. execSync env ''git rev-parse --show-toplevel'' = Inr printed
                            \<and> repositoryRoot (opts s')
                                = Some (makeAbsolute env (trimRight printed))))))
   \<and> (run fuel env d = Some (r0, s0) \<longrightarrow>
         (commands s0 = [] \<or> commands s0 = [''git rev-parse --show-toplevel''])
         \<and> ((\<forall>p. makeAbsolute env (makeAbsolute env p) = makeAbsolute env p) \<longrightarrow>
               (\<forall>v \<in> set (visits s0). visitorOptions v = opts s0)))"
proof -
  have call: "(commands s' = commands s
        \<or> (repositoryRoot (opts s) = None
            \<and> commands s' = commands s @ [''git rev-parse --show-toplevel'']))
      \<and> ((\<forall>p. makeAbsolute env (makeAbsolute env p) = makeAbsolute env p) \<longrightarrow>
            (\<forall>v \<in> set (drop (length (visits s)) (visits s')). visitorOptions v = opts s')
            \<and> (drop (length (visits s)) (visits s') \<noteq> [] \<longrightarrow>
                  projectRoot (opts s')
                    = Some (makeAbsolute env
                              (case projectRoot (opts s) of None \<Rightarrow> cwd env | Some p \<Rightarrow> p))
                  \<and> (case repositoryRoot (opts s) of
                        Some root \<Rightarrow> repositoryRoot (opts s') = Some (makeAbsolute env root)
                      | None \<Rightarrow>
                          \<exists>printed. execSync env ''git rev-parse --show-toplevel'' = Inr printed
                            \<and> repositoryRoot (opts s')
                                = Some (makeAbsolute env (trimRight printed)))))"
    if p: "processProject fuel env emitter path config s = Some (r, s')"
    using processProject_git_once [OF p] processProject_roots [OF _ p] by blast
  have whole: "(commands s0 = [] \<or> commands s0 = [''git rev-parse --show-toplevel''])
         \<and> ((\<forall>p. makeAbsolute env (makeAbsolute env p) = makeAbsolute env p) \<longrightarrow>
               (\<forall>v \<in> set (visits s0). visitorOptions v = opts s0))"
    if "run fuel env d = Some (r0, s0)"
    using that
  proof (cases rule: run_cases)
    case early
    then show ?thesis by simp
  next
    case (processed s3 o4)
    from processProject_git_once [OF processed(3)] processed(1)
    have "commands s0 = [] \<or> commands s0 = [''git rev-parse --show-toplevel'']" by auto
    moreover have "\<forall>v \<in> set (visits s0). visitorOptions v = opts s0"
      if "\<forall>p. makeAbsolute env (makeAbsolute env p) = makeAbsolute env p"
      using processProject_roots [OF that processed(3)] processed(2) by simp
    ultimately show ?thesis by blast
  qed
  from call whole show ?thesis by blast
qed

theorem roots_resolved_once_witness:
  "(\<forall>p. makeAbsolute demo_env (makeAbsolute demo_env p) = makeAbsolute demo_env p)
   \<and> repositoryRoot (opts demo_world) = None \<and> commands demo_world = []
   \<and> execSync demo_env ''git rev-parse --show-toplevel'' = Inr (''/w'' @ [LF])
   \<and> makeAbsolute demo_env (trimRight (''/w'' @ [LF])) = ''/w''
   \<and> map_option (\<lambda>(r, s). (commands s, map visitorOptions (visits s), opts s))
       (processProject 3 demo_env (create FileWriter) [] (demo_project ''/w'') demo_world)
       = Some ([''git rev-parse --show-toplevel''],
               [demo_options\<lparr>projectRoot := Some ''/w'', repositoryRoot := Some ''/w''\<rparr>,
                demo_options\<lparr>projectRoot := Some ''/w'', repositoryRoot := Some ''/w''\<rparr>,
                demo_options\<lparr>projectRoot := Some ''/w'', repositoryRoot := Some ''/w''\<rparr>],
               demo_options\<lparr>projectRoot := Some ''/w'', repositoryRoot := Some ''/w''\<rparr>)
   \<and> map_option (\<lambda>(r, s). (commands s, map visitorOptions (visits s), opts s))
       (run 3 demo_env demo_disk)
       = Some ([''git rev-parse --show-toplevel''],
               [demo_options\<lparr>projectRoot := Some ''/w'', repositoryRoot := Some ''/w''\<rparr>,
                demo_options\<lparr>projectRoot := Some ''/w'', repositoryRoot := Some ''/w''\<rparr>,
                demo_options\<lparr>projectRoot := Some ''/w'', repositoryRoot := Some ''/w''\<rparr>],
               demo_options\<lparr>projectRoot := Some ''/w'', repositoryRoot := Some ''/w''\<rparr>)"
proof -
  have facts: "repositoryRoot (opts demo_world) = None" "commands demo_world = []"
    "execSync demo_env ''git rev-parse --show-toplevel'' = Inr (''/w'' @ [LF])"
    "makeAbsolute demo_env (trimRight (''/w'' @ [LF])) = ''/w''"
    by (simp_all add: demo_world_def startup_def demo_env_def demo_options_def trimRight_def
        is_space_def LF_def demo_resolve_def)
  from demo_processProject obtain r s' where
    p: "processProject 3 demo_env (create FileWriter) [] (demo_project ''/w'') demo_world
          = Some (r, s')"
    and ps: "commands s' = [''git rev-parse --show-toplevel'']"
      "map visitorOptions (visits s')
         = [demo_options\<lparr>projectRoot := Some ''/w'', repositoryRoot := Some ''/w''\<rparr>,
            demo_options\<lparr>projectRoot := Some ''/w'', repositoryRoot := Some ''/w''\<rparr>,
            demo_options\<lparr>projectRoot := Some ''/w'', repositoryRoot := Some ''/w''\<rparr>]"
      "opts s' = demo_options\<lparr>projectRoot := Some ''/w'', repositoryRoot := Some ''/w''\<rparr>"
    by (auto simp: map_option_case split: option.splits)
  from demo_run obtain s0 where
    q: "run 3 demo_env demo_disk = Some (Return (), s0)"
    and qs: "commands s0 = [''git rev-parse --show-toplevel'']"
      "map visitorOptions (visits s0)
         = [demo_options\<lparr>projectRoot := Some ''/w'', repositoryRoot := Some ''/w''\<rparr>,
            demo_options\<lparr>projectRoot := Some ''/w'', repositoryRoot := Some ''/w''\<rparr>,
            demo_options\<lparr>projectRoot := Some ''/w'', repositoryRoot := Some ''/w''\<rparr>]"
      "opts s0 = demo_options\<lparr>projectRoot := Some ''/w'', repositoryRoot := Some ''/w''\<rparr>"
    by (auto simp: map_option_case split: option.splits)
  from roots_resolved_once [of 3 demo_env "create FileWriter" "[]"
      "demo_project ''/w''" demo_world r s' demo_disk "Return ()" s0] p q demo_idempotent
  have "\<forall>v \<in> set (visits s0). visitorOptions v = opts s0"
    by blast
  with demo_idempotent facts p q ps qs show ?thesis by simp
qed

end
